theory Spec2Isabelle
  imports Complex_Main "HOL-Library.Log_Nat" "HOL-Library.Code_Target_Nat"
begin

section \<open>Text: Python \<open>str\<close> values as lists of code points\<close>

text \<open>
  A Python \<open>str\<close> is a sequence of Unicode code points, so a text is a list of natural
  numbers. ASCII literals of the source are written through \<open>u\<close>, which maps every
  character of a HOL string to its code.
\<close>

type_synonym ustr = "nat list"

definition u :: "string \<Rightarrow> ustr" where
  "u s = map of_char s"

definition NL :: nat where "NL = 10"
definition US :: nat where "US = 95"

section \<open>Output file name: the sanitising step of \<open>process_episode\<close>\<close>

text \<open>
  \<^verbatim>\<open>safe = re.sub(r'[<>:"/\\|?*]', '_', ep_name)\<close>
  \<^verbatim>\<open>safe = re.sub(r'_+', '_', safe).strip('_') or 'episode'\<close>

  The character class holds the nine code points of \<open>< > : " / \ | ? *\<close>.
\<close>

definition unsafe_chars :: "nat list" where
  "unsafe_chars = [60, 62, 58, 34, 47, 92, 124, 63, 42]"

definition sub_unsafe :: "ustr \<Rightarrow> ustr" where
  "sub_unsafe s = map (\<lambda>c. if c \<in> set unsafe_chars then US else c) s"

text \<open>\<open>re.sub(r'_+', '_', s)\<close>: every maximal run of underscores is replaced by one.\<close>

function sub_underscores :: "ustr \<Rightarrow> ustr" where
  "sub_underscores [] = []"
| "sub_underscores (c # cs) =
     (if c = US then US # sub_underscores (dropWhile (\<lambda>d. d = US) cs)
      else c # sub_underscores cs)"
  by pat_completeness auto
termination
  by (relation "measure length") (auto simp: le_imp_less_Suc length_dropWhile_le)

text \<open>\<open>s.strip('_')\<close>: underscores are removed from both ends.\<close>

definition strip_underscores :: "ustr \<Rightarrow> ustr" where
  "strip_underscores s =
     rev (dropWhile (\<lambda>d. d = US) (rev (dropWhile (\<lambda>d. d = US) s)))"

definition safe_name :: "ustr \<Rightarrow> ustr" where
  "safe_name ep_name =
     (let safe = strip_underscores (sub_underscores (sub_unsafe ep_name))
      in if safe = [] then u ''episode'' else safe)"

text \<open>A text has a run of underscores when two neighbours are both underscores.\<close>

fun has_double_underscore :: "ustr \<Rightarrow> bool" where
  "has_double_underscore (c # d # cs) =
     ((c = US \<and> d = US) \<or> has_double_underscore (d # cs))"
| "has_double_underscore _ = False"

section \<open>Python floats\<close>

text \<open>
  A Python \<open>float\<close> is an IEEE 754 binary64 number. A finite one is the rational it
  denotes, and every arithmetic operation of the source is the exact operation followed
  by \<open>fl\<close>, rounding to the nearest binary64 number, ties to the even significand:
  53 significant bits, and the fixed spacing \<open>2 ^ - 1074\<close> below \<open>2 ^ - 1022\<close>.
  A result of magnitude \<open>2 ^ 1024\<close> or more is not finite; the places of the source
  that can reach it are marked with \<open>overflows\<close>.
\<close>

datatype py_error = OverflowError string

definition pow2 :: "int \<Rightarrow> rat" where
  "pow2 k = (if 0 \<le> k then 2 ^ nat k else 1 / 2 ^ nat (- k))"

text \<open>For \<open>0 < q\<close>, \<open>binade q\<close> is the exponent \<open>e\<close> with \<open>2 ^ e \<le> q < 2 ^ (e + 1)\<close>.\<close>

definition binade :: "rat \<Rightarrow> int" where
  "binade q = (if 1 \<le> q then bitlen \<lfloor>q\<rfloor> - 1 else - bitlen (\<lceil>1 / q\<rceil> - 1))"

definition round_half_even :: "rat \<Rightarrow> int" where
  "round_half_even m =
     (let f = \<lfloor>m\<rfloor>; d = m - of_int f
      in if d < 1 / 2 then f else if 1 / 2 < d then f + 1
         else if even f then f else f + 1)"

definition fl :: "rat \<Rightarrow> rat" where
  "fl q =
     (if q = 0 then 0
      else let e = max (binade \<bar>q\<bar>) (- 1022); ulp = pow2 (e - 52)
           in sgn q * (of_int (round_half_even (\<bar>q\<bar> / ulp)) * ulp))"

text \<open>The exponent that fixes the spacing of the floats around a positive number.\<close>

definition fexp :: "rat \<Rightarrow> int" where
  "fexp q = max (binade q) (- 1022)"

definition overflows :: "rat \<Rightarrow> bool" where
  "overflows q = (2 ^ 1024 \<le> \<bar>fl q\<bar>)"

text \<open>\<open>int(x)\<close> on a finite float truncates towards zero.\<close>

definition trunc :: "rat \<Rightarrow> int" where
  "trunc q = (if 0 \<le> q then \<lfloor>q\<rfloor> else \<lceil>q\<rceil>)"

text \<open>
  \<open>x % y\<close> and \<open>x // y\<close> on floats, as CPython computes them: the C \<open>fmod\<close> is exact
  and has the sign of \<open>x\<close>; the remainder is moved to the sign of \<open>y\<close>, and the quotient
  \<open>(x - mod) / y\<close> is snapped to the nearest whole number.
\<close>

definition c_fmod :: "rat \<Rightarrow> rat \<Rightarrow> rat" where
  "c_fmod x y = x - y * of_int (trunc (x / y))"

definition float_mod :: "rat \<Rightarrow> rat \<Rightarrow> rat" where
  "float_mod vx wx =
     (let m = c_fmod vx wx
      in if m \<noteq> 0 \<and> ((wx < 0) \<noteq> (m < 0)) then fl (m + wx) else m)"

definition float_floordiv :: "rat \<Rightarrow> rat \<Rightarrow> rat" where
  "float_floordiv vx wx =
     (let m = c_fmod vx wx;
          d0 = fl (fl (vx - m) / wx);
          d = (if m \<noteq> 0 \<and> ((wx < 0) \<noteq> (m < 0)) then fl (d0 - 1) else d0)
      in if d \<noteq> 0
         then (let f = of_int \<lfloor>d\<rfloor> in if 1 / 2 < fl (d - f) then fl (f + 1) else f)
         else 0)"

text \<open>
  \<open>int(i * x)\<close> for an \<open>int\<close> \<open>i\<close> and a float \<open>x\<close>: \<open>i\<close> is converted to a float
  first, which raises \<open>OverflowError\<close> when \<open>i\<close> is beyond the float range; an infinite
  product raises the same error in \<open>int\<close>. The error carries its message.
\<close>

definition int_of_product :: "int \<Rightarrow> rat \<Rightarrow> py_error + int" where
  "int_of_product i x =
     (if overflows (of_int i) then Inl (OverflowError ''int too large to convert to float'')
      else if overflows (fl (of_int i) * x)
      then Inl (OverflowError ''cannot convert float infinity to integer'')
      else Inr (trunc (fl (fl (of_int i) * x))))"

section \<open>Formatting integers\<close>

function str_nat :: "nat \<Rightarrow> ustr" where
  "str_nat n = (if n < 10 then [48 + n] else str_nat (n div 10) @ [48 + n mod 10])"
  by pat_completeness auto
termination
  by (relation "measure id") auto

definition str_int :: "int \<Rightarrow> ustr" where
  "str_int i = (if i < 0 then 45 # str_nat (nat (- i)) else str_nat (nat i))"

text \<open>The format specification \<open>0Nd\<close>: zeros are put between the sign and the digits.\<close>

definition fmt_0d :: "nat \<Rightarrow> int \<Rightarrow> ustr" where
  "fmt_0d width i =
     (let sign = (if i < 0 then [45] else []); ds = str_nat (nat \<bar>i\<bar>)
      in sign @ replicate (width - length sign - length ds) 48 @ ds)"

section \<open>Timestamp codec: \<open>format_ass_time\<close> and \<open>format_srt_time\<close>\<close>

definition format_ass_time :: "rat \<Rightarrow> ustr" where
  "format_ass_time s =
     (let h = trunc (float_floordiv s 3600);
          m = trunc (float_floordiv (float_mod s 3600) 60);
          sc = trunc (float_mod s 60);
          cs = trunc (fl (float_mod s 1 * 100))
      in str_int h @ u '':'' @ fmt_0d 2 m @ u '':'' @ fmt_0d 2 sc @ u ''.'' @ fmt_0d 2 cs)"

definition format_srt_time :: "rat \<Rightarrow> ustr" where
  "format_srt_time s =
     (let h = trunc (float_floordiv s 3600);
          m = trunc (float_floordiv (float_mod s 3600) 60);
          sc = trunc (float_mod s 60);
          ms = trunc (fl (float_mod s 1 * 1000))
      in fmt_0d 2 h @ u '':'' @ fmt_0d 2 m @ u '':'' @ fmt_0d 2 sc @ u '','' @ fmt_0d 3 ms)"

section \<open>Style layout: the first lines of \<open>create_ass\<close>\<close>

text \<open>
  The settings of the module are float literals, each the float nearest to its decimal.
\<close>

definition CHINESE_MARGIN_V_PCT :: rat where
  "CHINESE_MARGIN_V_PCT = fl (18 / 100)"

definition GAP_PCT :: rat where
  "GAP_PCT = fl (15 / 1000)"

definition CHINESE_FONT_PCT :: rat where
  "CHINESE_FONT_PCT = fl (52 / 1000)"

definition ENGLISH_FONT_PCT :: rat where
  "ENGLISH_FONT_PCT = fl (38 / 1000)"

record layout =
  cjk_fs :: int
  lat_fs :: int
  mlr :: int
  cjk_mv :: int
  eng_mv :: int

text \<open>
  \<^verbatim>\<open>cjk_fs = max(int(h * CHINESE_FONT_PCT), 26)\<close>
  \<^verbatim>\<open>lat_fs = max(int(h * ENGLISH_FONT_PCT), 20)\<close>
  \<^verbatim>\<open>mlr    = int(w * 0.06)\<close>
  \<^verbatim>\<open>cjk_mv = int(h * margin_v_pct)\<close>
  \<^verbatim>\<open>eng_mv = cjk_mv + cjk_fs + int(h * GAP_PCT)\<close>

  The width and height are Python integers, the margin fraction is a finite float or
  \<open>None\<close>, which stands for \<open>CHINESE_MARGIN_V_PCT\<close>.
\<close>

definition create_ass_layout :: "int \<Rightarrow> int \<Rightarrow> rat option \<Rightarrow> py_error + layout" where
  "create_ass_layout w h margin_v_pct =
     (let mvp = (case margin_v_pct of None \<Rightarrow> CHINESE_MARGIN_V_PCT | Some p \<Rightarrow> p)
      in case int_of_product h CHINESE_FONT_PCT of Inl e \<Rightarrow> Inl e | Inr a \<Rightarrow>
         (case int_of_product h ENGLISH_FONT_PCT of Inl e \<Rightarrow> Inl e | Inr b \<Rightarrow>
         (case int_of_product w (fl (6 / 100)) of Inl e \<Rightarrow> Inl e | Inr m \<Rightarrow>
         (case int_of_product h mvp of Inl e \<Rightarrow> Inl e | Inr v \<Rightarrow>
         (case int_of_product h GAP_PCT of Inl e \<Rightarrow> Inl e | Inr g \<Rightarrow>
            Inr \<lparr>cjk_fs = max a 26, lat_fs = max b 20, mlr = m, cjk_mv = v,
                 eng_mv = v + max a 26 + g\<rparr>)))))"

text \<open>
  The layout as the specification words it, with rounding to the nearest integer
  (Python's \<open>round\<close>) of the same float products.
\<close>

definition round_product :: "int \<Rightarrow> rat \<Rightarrow> int" where
  "round_product i x = round_half_even (fl (fl (of_int i) * x))"

definition spec_layout :: "int \<Rightarrow> int \<Rightarrow> rat \<Rightarrow> layout" where
  "spec_layout w h mv =
     \<lparr>cjk_fs = max (round_product h (fl (52 / 1000))) 26,
      lat_fs = max (round_product h (fl (38 / 1000))) 20,
      mlr = round_product w (fl (6 / 100)),
      cjk_mv = round_product h mv,
      eng_mv = round_product h mv + max (round_product h (fl (52 / 1000))) 26
               + round_product h (fl (15 / 1000))\<rparr>"

text \<open>The same formulas with truncation towards zero in place of rounding.\<close>

definition trunc_product :: "int \<Rightarrow> rat \<Rightarrow> int" where
  "trunc_product i x = trunc (fl (fl (of_int i) * x))"

definition trunc_layout :: "int \<Rightarrow> int \<Rightarrow> rat \<Rightarrow> layout" where
  "trunc_layout w h mv =
     \<lparr>cjk_fs = max (trunc_product h (fl (52 / 1000))) 26,
      lat_fs = max (trunc_product h (fl (38 / 1000))) 20,
      mlr = trunc_product w (fl (6 / 100)),
      cjk_mv = trunc_product h mv,
      eng_mv = trunc_product h mv + max (trunc_product h (fl (52 / 1000))) 26
               + trunc_product h (fl (15 / 1000))\<rparr>"

section \<open>The SubRip parser: \<open>parse_srt\<close>\<close>

text \<open>
  White space, for \<open>str.strip()\<close> and for \<open>\s\<close> in a pattern on \<open>str\<close>, is the set of
  code points for which \<open>str.isspace\<close> holds.
\<close>

definition isspace :: "nat \<Rightarrow> bool" where
  "isspace c =
     (c \<in> set [9, 10, 11, 12, 13, 28, 29, 30, 31, 32, 133, 160, 5760, 8232, 8233, 8239,
                8287, 12288]
      \<or> (8192 \<le> c \<and> c \<le> 8202))"

definition strip :: "ustr \<Rightarrow> ustr" where
  "strip s = rev (dropWhile isspace (rev (dropWhile isspace s)))"

text \<open>
  \<open>\d\<close> in a pattern on \<open>str\<close> matches every decimal digit of Unicode (category Nd),
  and \<open>int\<close> reads each by its decimal value. The digits come in runs of ten from a
  zero; the zeros below are those of Unicode 14, the version of Python 3.11.
\<close>

definition digit_zeros :: "nat list" where
  "digit_zeros =
     [48, 1632, 1776, 1984, 2406, 2534, 2662, 2790, 2918, 3046, 3174, 3302, 3430, 3558,
      3664, 3792, 3872, 4160, 4240, 6112, 6160, 6470, 6608, 6784, 6800, 6992, 7088, 7232,
      7248, 42528, 43216, 43264, 43472, 43504, 43600, 44016, 65296, 66720, 68912, 69734,
      69872, 69942, 70096, 70384, 70736, 70864, 71248, 71360, 71472, 71904, 72016, 72784,
      73040, 73120, 92768, 92864, 93008, 120782, 120792, 120802, 120812, 120822, 123200,
      123632, 125264, 130032]"

definition digit_value :: "nat \<Rightarrow> nat option" where
  "digit_value c =
     (case filter (\<lambda>z. z \<le> c \<and> c < z + 10) digit_zeros of
        [] \<Rightarrow> None
      | z # _ \<Rightarrow> Some (c - z))"

definition isdigit :: "nat \<Rightarrow> bool" where
  "isdigit c = (digit_value c \<noteq> None)"

text \<open>\<open>int(g)\<close> for a group \<open>g\<close> that the pattern matched with \<open>\d\<close> only.\<close>

definition int_of_digits :: "ustr \<Rightarrow> nat" where
  "int_of_digits ds =
     foldl (\<lambda>acc c. 10 * acc + (case digit_value c of None \<Rightarrow> 0 | Some d \<Rightarrow> d)) 0 ds"

text \<open>
  \<^verbatim>\<open>content.replace('\\ufeff', '').replace('\r\n', '\n').replace('\r', '\n')\<close>
\<close>

fun replace_crlf :: "ustr \<Rightarrow> ustr" where
  "replace_crlf (c # d # cs) =
     (if c = 13 \<and> d = 10 then 10 # replace_crlf cs else c # replace_crlf (d # cs))"
| "replace_crlf cs = cs"

definition normalise_content :: "ustr \<Rightarrow> ustr" where
  "normalise_content content =
     map (\<lambda>c. if c = 13 then 10 else c) (replace_crlf (filter (\<lambda>c. c \<noteq> 65279) content))"

text \<open>\<open>s.split('\n')\<close> and \<open>'\n'.join(ls)\<close>.\<close>

fun split_nl :: "ustr \<Rightarrow> ustr list" where
  "split_nl [] = [[]]"
| "split_nl (c # cs) =
     (if c = 10 then [] # split_nl cs
      else (case split_nl cs of [] \<Rightarrow> [[c]] | l # ls \<Rightarrow> (c # l) # ls))"

fun join_nl :: "ustr list \<Rightarrow> ustr" where
  "join_nl [] = []"
| "join_nl [l] = l"
| "join_nl (l # ls) = l @ 10 # join_nl ls"

text \<open>
  \<^verbatim>\<open>re.split(r'\n\s*\n', s)\<close>. A separator starts at a line feed; \<open>\s*\<close> takes the whole
  run of white space after it and gives back up to the last line feed of the run, so
  the separator ends there, and there is none when the run has no line feed.
\<close>

definition after_last_nl :: "ustr \<Rightarrow> ustr" where
  "after_last_nl r = rev (takeWhile (\<lambda>d. d \<noteq> 10) (rev r))"

function split_blocks :: "ustr \<Rightarrow> ustr list" where
  "split_blocks [] = [[]]"
| "split_blocks (c # cs) =
     (if c = 10 \<and> 10 \<in> set (takeWhile isspace cs)
      then [] # split_blocks (after_last_nl (takeWhile isspace cs) @ dropWhile isspace cs)
      else (case split_blocks cs of [] \<Rightarrow> [[c]] | b # bs \<Rightarrow> (c # b) # bs))"
  by pat_completeness auto
termination
proof (relation "measure length")
  show "wf (measure length)" by simp
next
  fix c :: nat and cs :: ustr
  have "length (after_last_nl (takeWhile isspace cs)) \<le> length (takeWhile isspace cs)"
    unfolding after_last_nl_def length_rev
    by (rule order_trans [OF length_takeWhile_le]) simp
  moreover have "length (takeWhile isspace cs) + length (dropWhile isspace cs) = length cs"
    by (metis length_append takeWhile_dropWhile_id)
  ultimately show
    "(after_last_nl (takeWhile isspace cs) @ dropWhile isspace cs, c # cs) \<in> measure length"
    by simp
next
  fix c :: nat and cs :: ustr
  show "(cs, c # cs) \<in> measure length" by simp
qed

text \<open>
  The timestamp pattern, matched at the start of the stripped line:
  \<^verbatim>\<open>(\d{2}):(\d{2}):(\d{2})[,.](\d{3})\s*-->\s*(\d{2}):(\d{2}):(\d{2})[,.](\d{3})\<close>.
  Every piece is deterministic: a fixed number of digits, a literal, or white space up
  to a character that is not white space.
\<close>

definition take_digits :: "nat \<Rightarrow> ustr \<Rightarrow> (ustr \<times> ustr) option" where
  "take_digits n s =
     (if n \<le> length s \<and> list_all isdigit (take n s) then Some (take n s, drop n s)
      else None)"

definition expect :: "ustr \<Rightarrow> ustr \<Rightarrow> ustr option" where
  "expect p s = (if take (length p) s = p then Some (drop (length p) s) else None)"

definition expect_sep :: "ustr \<Rightarrow> ustr option" where
  "expect_sep s =
     (case s of [] \<Rightarrow> None | c # cs \<Rightarrow> if c = 44 \<or> c = 46 then Some cs else None)"

type_synonym stamp = "ustr \<times> ustr \<times> ustr \<times> ustr"

definition match_stamp :: "ustr \<Rightarrow> (stamp \<times> ustr) option" where
  "match_stamp s0 =
     Option.bind (take_digits 2 s0) (\<lambda>(h, s1).
     Option.bind (expect (u '':'') s1) (\<lambda>s2.
     Option.bind (take_digits 2 s2) (\<lambda>(m, s3).
     Option.bind (expect (u '':'') s3) (\<lambda>s4.
     Option.bind (take_digits 2 s4) (\<lambda>(sc, s5).
     Option.bind (expect_sep s5) (\<lambda>s6.
     Option.bind (take_digits 3 s6) (\<lambda>(ms, s7).
     Some ((h, m, sc, ms), s7))))))))"

definition time_match :: "ustr \<Rightarrow> (stamp \<times> stamp) option" where
  "time_match line =
     Option.bind (match_stamp line) (\<lambda>(g1, s1).
     Option.bind (expect (u ''-->'') (dropWhile isspace s1)) (\<lambda>s2.
     Option.bind (match_stamp (dropWhile isspace s2)) (\<lambda>(g2, s3).
     Some (g1, g2))))"

text \<open>
  \<^verbatim>\<open>int(g[0])*3600 + int(g[1])*60 + int(g[2]) + int(g[3])/1000\<close>: an integer sum, the
  float quotient of the milliseconds, and their float sum.
\<close>

definition stamp_seconds :: "stamp \<Rightarrow> rat" where
  "stamp_seconds g =
     (case g of (h, m, sc, ms) \<Rightarrow>
        fl (fl (of_nat (int_of_digits h * 3600 + int_of_digits m * 60 + int_of_digits sc))
            + fl (of_nat (int_of_digits ms) / 1000)))"

text \<open>
  \<^verbatim>\<open>re.sub(r'<[^>]+>', '', text)\<close> and \<^verbatim>\<open>re.sub(r'\{[^}]+\}', '', text)\<close>: a tag starts
  at an opening character, runs over at least one character that is not the closing
  one, whatever it is, and ends at the first closing character.
\<close>

function sub_tags :: "nat \<Rightarrow> nat \<Rightarrow> ustr \<Rightarrow> ustr" where
  "sub_tags a b [] = []"
| "sub_tags a b (c # cs) =
     (if c = a \<and> takeWhile (\<lambda>d. d \<noteq> b) cs \<noteq> [] \<and> dropWhile (\<lambda>d. d \<noteq> b) cs \<noteq> []
      then sub_tags a b (tl (dropWhile (\<lambda>d. d \<noteq> b) cs))
      else c # sub_tags a b cs)"
  by pat_completeness auto
termination
proof (relation "measure (\<lambda>(a, b, s). length s)")
  show "wf (measure (\<lambda>(a, b, s). length s))" by simp
next
  fix a b c :: nat and cs :: ustr
  have "length (tl (dropWhile (\<lambda>d. d \<noteq> b) cs)) \<le> length cs"
    using length_dropWhile_le [of "\<lambda>d. d \<noteq> b" cs] by simp
  then show "((a, b, tl (dropWhile (\<lambda>d. d \<noteq> b) cs)), a, b, c # cs)
      \<in> measure (\<lambda>(a, b, s). length s)"
    by simp
next
  fix a b c :: nat and cs :: ustr
  show "((a, b, cs), a, b, c # cs) \<in> measure (\<lambda>(a, b, s). length s)" by simp
qed

record entry =
  e_start :: rat
  e_end :: rat
  e_text :: ustr

text \<open>The first line of a block that the timestamp pattern matches, with its index.\<close>

fun find_time :: "nat \<Rightarrow> ustr list \<Rightarrow> (nat \<times> stamp \<times> stamp) option" where
  "find_time li [] = None"
| "find_time li (line # rest) =
     (case time_match (strip line) of
        Some m \<Rightarrow> Some (li, m)
      | None \<Rightarrow> find_time (Suc li) rest)"

definition block_text :: "nat \<Rightarrow> ustr list \<Rightarrow> ustr" where
  "block_text time_idx lines =
     strip (sub_tags 123 125 (sub_tags 60 62 (join_nl (drop (time_idx + 1) lines))))"

definition parse_block :: "ustr \<Rightarrow> entry option" where
  "parse_block block =
     (let lines = split_nl (strip block)
      in if length lines < 2 then None
         else (case find_time 0 lines of
                 None \<Rightarrow> None
               | Some (time_idx, g1, g2) \<Rightarrow>
                   (let text = block_text time_idx lines
                    in if text = [] then None
                       else Some \<lparr>e_start = stamp_seconds g1, e_end = stamp_seconds g2,
                                  e_text = text\<rparr>)))"

text \<open>
  \<open>parse_srt\<close> on the decoded content of the file: the loop over the blocks appends an
  entry for a block or goes on to the next.
\<close>

definition srt_blocks :: "ustr \<Rightarrow> ustr list" where
  "srt_blocks content = split_blocks (strip (normalise_content content))"

definition parse_srt :: "ustr \<Rightarrow> entry list" where
  "parse_srt content = List.map_filter parse_block (srt_blocks content)"

text \<open>
  The blocks that the specification says are kept: those with a line that the timestamp
  pattern matches and whose text, taken after the first such line and stripped of
  markup, is not empty.
\<close>

definition is_time_line :: "ustr \<Rightarrow> bool" where
  "is_time_line line = (time_match (strip line) \<noteq> None)"

definition block_lines :: "ustr \<Rightarrow> ustr list" where
  "block_lines block = split_nl (strip block)"

definition has_time_line :: "ustr \<Rightarrow> bool" where
  "has_time_line block = list_ex is_time_line (block_lines block)"

definition first_time_index :: "ustr list \<Rightarrow> nat" where
  "first_time_index lines = length (takeWhile (\<lambda>l. \<not> is_time_line l) lines)"

definition stripped_text :: "ustr \<Rightarrow> ustr" where
  "stripped_text block =
     block_text (first_time_index (block_lines block)) (block_lines block)"

definition kept_block :: "ustr \<Rightarrow> bool" where
  "kept_block block = (has_time_line block \<and> stripped_text block \<noteq> [])"

section \<open>Language classifier and bilingual splitter\<close>

text \<open>The nine ranges of \<open>detect_language\<close>, in the order of the source.\<close>

definition is_cjk :: "nat \<Rightarrow> bool" where
  "is_cjk cp =
     ((19968 \<le> cp \<and> cp \<le> 40959) \<or> (13312 \<le> cp \<and> cp \<le> 19903)
      \<or> (63744 \<le> cp \<and> cp \<le> 64255) \<or> (11904 \<le> cp \<and> cp \<le> 12031)
      \<or> (12288 \<le> cp \<and> cp \<le> 12351) \<or> (65280 \<le> cp \<and> cp \<le> 65519)
      \<or> (44032 \<le> cp \<and> cp \<le> 55215) \<or> (12352 \<le> cp \<and> cp \<le> 12447)
      \<or> (12448 \<le> cp \<and> cp \<le> 12543))"

datatype lang = Cjk | Latin

text \<open>The counting loop, on the pair of \<open>cjk\<close> and \<open>total\<close>.\<close>

fun count_loop :: "nat \<times> nat \<Rightarrow> ustr \<Rightarrow> nat \<times> nat" where
  "count_loop (cjk, tot) [] = (cjk, tot)"
| "count_loop (cjk, tot) (ch # rest) =
     count_loop (if is_cjk ch then cjk + 1 else cjk, tot + 1) rest"

text \<open>
  \<open>cjk / total\<close> is the true division of two integers, the float nearest to the
  quotient, and \<open>0.2\<close> is the float nearest to one fifth.
\<close>

definition detect_language :: "ustr \<Rightarrow> lang" where
  "detect_language text =
     (case count_loop (0, 0) text of (cjk, tot) \<Rightarrow>
        if tot = 0 then Latin
        else if fl (2 / 10) < fl (of_nat cjk / of_nat tot) then Cjk else Latin)"

text \<open>
  \<open>split_cjk_latin\<close>: the lines of the text, stripped, without the empty ones, each put
  in the bucket of its language; the buckets are joined with line feeds.
\<close>

definition text_lines :: "ustr \<Rightarrow> ustr list" where
  "text_lines text = map strip (filter (\<lambda>l. strip l \<noteq> []) (split_nl text))"

definition split_cjk_latin :: "ustr \<Rightarrow> ustr \<times> ustr" where
  "split_cjk_latin text =
     (join_nl (filter (\<lambda>line. detect_language line = Cjk) (text_lines text)),
      join_nl (filter (\<lambda>line. detect_language line \<noteq> Cjk) (text_lines text)))"

section \<open>The ASS generator: \<open>create_ass\<close>\<close>

definition ln :: "string \<Rightarrow> ustr" where
  "ln s = u s @ [10]"

definition header :: "int \<Rightarrow> int \<Rightarrow> layout \<Rightarrow> ustr" where
  "header w h l =
     ln ''[Script Info]''
     @ ln ''ScriptType: v4.00+''
     @ u ''PlayResX: '' @ str_int w @ [10]
     @ u ''PlayResY: '' @ str_int h @ [10]
     @ ln ''WrapStyle: 0''
     @ ln ''ScaledBorderAndShadow: yes'' @ [10]
     @ ln ''[V4+ Styles]''
     @ u ''Format: Name, Fontname, Fontsize, ''
     @ u ''PrimaryColour, SecondaryColour, ''
     @ u ''OutlineColour, BackColour, Bold, Italic, ''
     @ u ''Underline, StrikeOut, ScaleX, ScaleY, ''
     @ u ''Spacing, Angle, BorderStyle, Outline, Shadow, ''
     @ ln ''Alignment, MarginL, MarginR, MarginV, Encoding''
     @ u ''Style: Chinese,''
     @ u ''Arial Unicode MS,'' @ str_int (cjk_fs l) @ u '',''
     @ u ''&H00FFFFFF,&H000000FF,&H00000000,&H96000000,''
     @ u ''-1,0,0,0,100,100,0,0,1,3,1,2,''
     @ str_int (mlr l) @ u '','' @ str_int (mlr l) @ u '','' @ str_int (cjk_mv l) @ ln '',1''
     @ u ''Style: English,''
     @ u ''Arial,'' @ str_int (lat_fs l) @ u '',''
     @ u ''&H00FFFFFF,&H000000FF,&H00000000,&H96000000,''
     @ u ''0,0,0,0,100,100,0,0,1,2,1,2,''
     @ str_int (mlr l) @ u '','' @ str_int (mlr l) @ u '','' @ str_int (eng_mv l) @ ln '',1''
     @ [10]
     @ ln ''[Events]''
     @ u ''Format: Layer, Start, End, Style, Name, ''
     @ ln ''MarginL, MarginR, MarginV, Effect, Text''"

text \<open>\<open>s.replace('\n', '\\N')\<close>: a line feed becomes a backslash and the letter N.\<close>

definition replace_nl :: "ustr \<Rightarrow> ustr" where
  "replace_nl s = concat (map (\<lambda>c. if c = 10 then [92, 78] else [c]) s)"

definition dialogue :: "ustr \<Rightarrow> ustr \<Rightarrow> string \<Rightarrow> ustr \<Rightarrow> ustr" where
  "dialogue s en style txt =
     u ''Dialogue: 0,'' @ s @ u '','' @ en @ u '','' @ u style @ u '',,0,0,0,,'' @ txt @ [10]"

text \<open>The body of the loop over the entries: the lines appended to \<open>dlg\<close> for one entry.\<close>

definition entry_events :: "entry \<Rightarrow> ustr list" where
  "entry_events e =
     (let s = format_ass_time (e_start e);
          en = format_ass_time (e_end e);
          cjk = fst (split_cjk_latin (e_text e));
          lat = snd (split_cjk_latin (e_text e))
      in if cjk \<noteq> [] \<and> lat \<noteq> []
         then [dialogue s en ''Chinese'' (replace_nl cjk),
               dialogue s en ''English'' (replace_nl lat)]
         else if cjk \<noteq> []
         then [dialogue s en ''Chinese'' (replace_nl cjk)]
         else [dialogue s en ''English''
                 (replace_nl (if lat \<noteq> [] then lat else e_text e))])"

text \<open>
  \<open>create_ass\<close> on the entries that \<open>parse_srt\<close> returned: the text written to the
  script file and the returned number of entries, or the error of the layout.
\<close>

definition generate_ass ::
  "entry list \<Rightarrow> int \<Rightarrow> int \<Rightarrow> rat option \<Rightarrow> py_error + (ustr \<times> nat)" where
  "generate_ass entries w h margin_v_pct =
     (case create_ass_layout w h margin_v_pct of
        Inl err \<Rightarrow> Inl err
      | Inr l \<Rightarrow>
          Inr (header w h l @ concat (concat (map entry_events entries)), length entries))"

definition create_ass :: "ustr \<Rightarrow> int \<Rightarrow> int \<Rightarrow> rat option \<Rightarrow> py_error + (ustr \<times> nat)" where
  "create_ass srt_content w h margin_v_pct =
     generate_ass (parse_srt srt_content) w h margin_v_pct"

section \<open>The merge orchestrator: \<open>process_episode\<close>\<close>

text \<open>
  The job runs in a world of directories and files, and leaves a trace of the external
  commands it runs and of the messages it logs. What the code does not decide is the
  environment: the names \<open>mkdtemp\<close> may pick, the lower-cased suffix of a file name,
  what an external command returns and does to the files, what the probe finds, which
  filters are available, and what the log callback does with a message. A file is
  named by its path; writing a file always succeeds, and reading a file that does not
  exist raises. An exception is kept as the text that \<open>str(ex)\<close> gives. The messages
  passed to the log callback are kept as values, one constructor for each format string
  of the source.
\<close>

type_synonym bytes = "nat list"

datatype exn = Exn ustr

fun exn_text :: "exn \<Rightarrow> ustr" where
  "exn_text (Exn t) = t"

fun error_text :: "py_error \<Rightarrow> ustr" where
  "error_text (OverflowError t) = u t"

record proc =
  returncode :: int
  stderr :: ustr

datatype log_msg =
    LogSubtitles nat
  | LogVideo int int rat
  | LogTrying ustr
  | LogSuccess ustr
  | LogError ustr ustr
  | LogTryMkv
  | LogMkvOk
  | LogTryMp4
  | LogMp4Ok
  | LogDone ustr

record world =
  dirs :: "ustr set"
  files :: "ustr \<Rightarrow> bytes option"
  calls :: "ustr list list"
  logged :: "log_msg list"

record env =
  tmp_names :: "ustr list"
  suffix_lower :: "ustr \<Rightarrow> ustr"
  run_process ::
    "ustr list \<Rightarrow> nat \<Rightarrow> (ustr \<Rightarrow> bytes option) \<Rightarrow> proc option \<times> (ustr \<Rightarrow> bytes option)"
  probe :: "ustr list \<Rightarrow> (ustr \<Rightarrow> bytes option) \<Rightarrow> (int \<times> int \<times> rat) option"
  filters :: "bool \<times> bool"
  log_fn :: "(log_msg \<Rightarrow> ustr option) option"

record merge_result =
  success :: bool
  output_bytes :: "bytes option"
  filename :: "ustr option"
  message :: ustr

definition failure :: "ustr \<Rightarrow> merge_result" where
  "failure msg = \<lparr>success = False, output_bytes = None, filename = None, message = msg\<rparr>"

text \<open>A step of the job: it returns a value or raises, and leaves a world.\<close>

type_synonym 'a io = "world \<Rightarrow> (exn + 'a) \<times> world"

definition io_return :: "'a \<Rightarrow> 'a io" where
  "io_return a w = (Inr a, w)"

definition io_raise :: "exn \<Rightarrow> 'a io" where
  "io_raise ex w = (Inl ex, w)"

definition io_bind :: "'a io \<Rightarrow> ('a \<Rightarrow> 'b io) \<Rightarrow> 'b io" where
  "io_bind m f w = (case m w of (Inl ex, w') \<Rightarrow> (Inl ex, w') | (Inr a, w') \<Rightarrow> f a w')"

text \<open>\<open>try: m except Exception as ex: h ex\<close>\<close>

definition io_catch :: "'a io \<Rightarrow> (exn \<Rightarrow> 'a io) \<Rightarrow> 'a io" where
  "io_catch m h w = (case m w of (Inl ex, w') \<Rightarrow> h ex w' | (Inr a, w') \<Rightarrow> (Inr a, w'))"

subsection \<open>Files and directories\<close>

definition path_join :: "ustr \<Rightarrow> ustr \<Rightarrow> ustr" where
  "path_join d name = d @ [47] @ name"

definition write_file :: "ustr \<Rightarrow> bytes \<Rightarrow> unit io" where
  "write_file path bs w = (Inr (), w\<lparr>files := (files w)(path \<mapsto> bs)\<rparr>)"

definition no_such_file :: "ustr \<Rightarrow> exn" where
  "no_such_file path = Exn (u ''[Errno 2] No such file or directory: '' @ [39] @ path @ [39])"

definition read_file :: "ustr \<Rightarrow> bytes io" where
  "read_file path w =
     (case files w path of None \<Rightarrow> (Inl (no_such_file path), w) | Some bs \<Rightarrow> (Inr bs, w))"

definition getsize :: "ustr \<Rightarrow> nat io" where
  "getsize path = io_bind (read_file path) (\<lambda>bs. io_return (length bs))"

definition path_exists :: "ustr \<Rightarrow> world \<Rightarrow> bool" where
  "path_exists path w = (files w path \<noteq> None)"

definition remove_if_exists :: "ustr \<Rightarrow> unit io" where
  "remove_if_exists path w = (Inr (), w\<lparr>files := (files w)(path := None)\<rparr>)"

text \<open>
  \<open>tempfile.mkdtemp\<close> makes a directory under the first candidate name that is free,
  and raises when no candidate is.
\<close>

definition mkdtemp :: "env \<Rightarrow> world \<Rightarrow> exn + (ustr \<times> world)" where
  "mkdtemp ev w =
     (case filter (\<lambda>d. d \<notin> dirs w) (tmp_names ev) of
        [] \<Rightarrow> Inl (Exn (u ''[Errno 17] No usable temporary directory name found''))
      | d # _ \<Rightarrow> Inr (d, w\<lparr>dirs := insert d (dirs w)\<rparr>))"

text \<open>\<open>shutil.rmtree(job_dir, ignore_errors=True)\<close>: the directory and all below it go.\<close>

definition under :: "ustr \<Rightarrow> ustr \<Rightarrow> bool" where
  "under d path = (take (length d + 1) path = d @ [47])"

definition rmtree :: "ustr \<Rightarrow> world \<Rightarrow> world" where
  "rmtree d w =
     w\<lparr>dirs := dirs w - {d},
       files := (\<lambda>path. if under d path then None else files w path)\<rparr>"

subsection \<open>Reading and writing text\<close>

definition is_cont :: "nat \<Rightarrow> bool" where
  "is_cont b = (128 \<le> b \<and> b \<le> 191)"

fun utf8_decode :: "bytes \<Rightarrow> ustr option" where
  "utf8_decode [] = Some []"
| "utf8_decode (b # bs) =
     (if b < 128 then map_option ((#) b) (utf8_decode bs)
      else if 194 \<le> b \<and> b \<le> 223 then
        (case bs of
           c1 # r \<Rightarrow>
             if is_cont c1
             then map_option ((#) ((b - 192) * 64 + (c1 - 128))) (utf8_decode r)
             else None
         | _ \<Rightarrow> None)
      else if 224 \<le> b \<and> b \<le> 239 then
        (case bs of
           c1 # c2 # r \<Rightarrow>
             if (if b = 224 then 160 else 128) \<le> c1 \<and> c1 \<le> (if b = 237 then 159 else 191)
                \<and> is_cont c2
             then map_option ((#) ((b - 224) * 4096 + (c1 - 128) * 64 + (c2 - 128)))
                    (utf8_decode r)
             else None
         | _ \<Rightarrow> None)
      else if 240 \<le> b \<and> b \<le> 244 then
        (case bs of
           c1 # c2 # c3 # r \<Rightarrow>
             if (if b = 240 then 144 else 128) \<le> c1 \<and> c1 \<le> (if b = 244 then 143 else 191)
                \<and> is_cont c2 \<and> is_cont c3
             then map_option
                    ((#) ((b - 240) * 262144 + (c1 - 128) * 4096 + (c2 - 128) * 64
                          + (c3 - 128)))
                    (utf8_decode r)
             else None
         | _ \<Rightarrow> None)
      else None)"

definition utf8_encode_char :: "nat \<Rightarrow> bytes" where
  "utf8_encode_char c =
     (if c < 128 then [c]
      else if c < 2048 then [192 + c div 64, 128 + c mod 64]
      else if c < 65536 then [224 + c div 4096, 128 + c div 64 mod 64, 128 + c mod 64]
      else [240 + c div 262144, 128 + c div 4096 mod 64, 128 + c div 64 mod 64,
            128 + c mod 64])"

definition utf8_encode :: "ustr \<Rightarrow> bytes" where
  "utf8_encode s = concat (map utf8_encode_char s)"

text \<open>Reading in text mode turns \<open>\r\n\<close> and \<open>\r\<close> into \<open>\n\<close>.\<close>

definition universal_newlines :: "ustr \<Rightarrow> ustr" where
  "universal_newlines t = map (\<lambda>c. if c = 13 then 10 else c) (replace_crlf t)"

text \<open>
  The reading loop of \<open>parse_srt\<close>: \<open>utf-8-sig\<close> drops a leading byte-order mark and
  decodes strictly; when that fails so does \<open>utf-8\<close>, and \<open>latin-1\<close> takes every byte
  as its code point, so \<open>cp1252\<close> is never reached. Empty content is read again as
  \<open>utf-8\<close>, which then has nothing to replace.
\<close>

definition decode_text :: "bytes \<Rightarrow> ustr" where
  "decode_text bs =
     (let content =
            universal_newlines
              (case utf8_decode (if take 3 bs = [239, 187, 191] then drop 3 bs else bs) of
                 Some t \<Rightarrow> t
               | None \<Rightarrow> bs)
      in if content = []
         then universal_newlines (case utf8_decode bs of Some t \<Rightarrow> t | None \<Rightarrow> [])
         else content)"

definition parse_srt_file :: "ustr \<Rightarrow> entry list io" where
  "parse_srt_file path = io_bind (read_file path) (\<lambda>bs. io_return (parse_srt (decode_text bs)))"

subsection \<open>External commands\<close>

text \<open>
  \<open>run_ff\<close> turns a timeout and every other exception into \<open>None\<close>; the command is
  recorded in the trace.
\<close>

definition run_ff :: "env \<Rightarrow> ustr list \<Rightarrow> nat \<Rightarrow> proc option io" where
  "run_ff ev cmd timeout w =
     (case run_process ev cmd timeout (files w) of
        (r, fs) \<Rightarrow> (Inr r, w\<lparr>files := fs, calls := calls w @ [cmd]\<rparr>))"

text \<open>
  \<open>get_video_info\<close> runs the probe and falls back to 1920 by 1080 and duration 0 on
  every failure; \<open>check_filters\<close> asks the encoder for its filters.
\<close>

definition get_video_info :: "env \<Rightarrow> ustr \<Rightarrow> (int \<times> int \<times> rat) io" where
  "get_video_info ev path w =
     (let cmd = [u ''ffprobe'', u ''-v'', u ''quiet'', u ''-print_format'', u ''json'',
                 u ''-show_streams'', u ''-show_format'', path]
      in (Inr (case probe ev cmd (files w) of None \<Rightarrow> (1920, 1080, 0) | Some i \<Rightarrow> i),
          w\<lparr>calls := calls w @ [cmd]\<rparr>))"

definition check_filters :: "env \<Rightarrow> (bool \<times> bool) io" where
  "check_filters ev w = (Inr (filters ev), w\<lparr>calls := calls w @ [[u ''ffmpeg'', u ''-filters'']]\<rparr>)"

definition good :: "proc option \<Rightarrow> ustr \<Rightarrow> world \<Rightarrow> bool" where
  "good result path w =
     (case result of
        None \<Rightarrow> False
      | Some p \<Rightarrow>
          returncode p = 0
          \<and> (case files w path of None \<Rightarrow> False | Some bs \<Rightarrow> 10000 < length bs))"

text \<open>\<open>result.stderr[-200:] if result and result.stderr else default\<close>\<close>

definition err_tail :: "proc option \<Rightarrow> ustr \<Rightarrow> ustr" where
  "err_tail result dflt =
     (case result of
        None \<Rightarrow> dflt
      | Some p \<Rightarrow> if stderr p \<noteq> [] then drop (length (stderr p) - 200) (stderr p) else dflt)"

definition do_log :: "env \<Rightarrow> log_msg \<Rightarrow> unit io" where
  "do_log ev msg w =
     (case log_fn ev of
        None \<Rightarrow> (Inr (), w)
      | Some f \<Rightarrow>
          (case f msg of
             None \<Rightarrow> (Inr (), w\<lparr>logged := logged w @ [msg]\<rparr>)
           | Some t \<Rightarrow> (Inl (Exn t), w\<lparr>logged := logged w @ [msg]\<rparr>)))"

text \<open>\<open>path.replace('\\', '/').replace(':', '\\:')\<close>, and the two filter arguments.\<close>

definition esc :: "ustr \<Rightarrow> ustr" where
  "esc path =
     concat (map (\<lambda>c. if c = 58 then [92, 58] else [c])
               (map (\<lambda>c. if c = 92 then 47 else c) path))"

definition vf_ass :: "ustr \<Rightarrow> ustr" where
  "vf_ass path = u ''ass='' @ [39] @ esc path @ [39]"

definition vf_subtitles :: "ustr \<Rightarrow> ustr" where
  "vf_subtitles path = u ''subtitles='' @ [39] @ esc path @ [39]"

definition burn_cmd :: "ustr \<Rightarrow> ustr \<Rightarrow> ustr \<Rightarrow> ustr list" where
  "burn_cmd video vf out =
     [u ''ffmpeg'', u ''-y'', u ''-i'', video, u ''-vf'', vf,
      u ''-c:v'', u ''libx264'', u ''-crf'', u ''20'', u ''-preset'', u ''fast'',
      u ''-c:a'', u ''aac'', u ''-b:a'', u ''192k'', u ''-movflags'', u ''+faststart'', out]"

definition is_ass_ext :: "ustr \<Rightarrow> bool" where
  "is_ass_ext sub_ext = (sub_ext = u ''.ass'' \<or> sub_ext = u ''.ssa'')"

subsection \<open>Hard subtitle methods\<close>

text \<open>
  \<open>create_ass\<close> on files: the subtitle file is read and parsed, the script is computed
  and written, and the number of entries is returned.
\<close>

definition create_ass_file ::
  "ustr \<Rightarrow> ustr \<Rightarrow> int \<Rightarrow> int \<Rightarrow> rat option \<Rightarrow> nat io" where
  "create_ass_file srt_path ass_path w h margin_v_pct =
     io_bind (read_file srt_path) (\<lambda>bs.
       case create_ass (decode_text bs) w h margin_v_pct of
         Inl err \<Rightarrow> io_raise (Exn (error_text err))
       | Inr (txt, n) \<Rightarrow> io_bind (write_file ass_path (utf8_encode txt)) (\<lambda>_. io_return n))"

definition burn_ass ::
  "env \<Rightarrow> ustr \<Rightarrow> ustr \<Rightarrow> ustr \<Rightarrow> ustr \<Rightarrow> int \<times> int \<times> rat \<Rightarrow> rat option \<Rightarrow> proc option io"
  where
  "burn_ass ev video sub out work_dir info margin_v_pct =
     io_bind (create_ass_file sub (path_join work_dir (u ''styled.ass''))
                (fst info) (fst (snd info)) margin_v_pct) (\<lambda>n.
       if n = 0 then io_return None
       else run_ff ev (burn_cmd video (vf_ass (path_join work_dir (u ''styled.ass''))) out) 7200)"

definition burn_subtitles :: "env \<Rightarrow> ustr \<Rightarrow> ustr \<Rightarrow> ustr \<Rightarrow> ustr \<Rightarrow> proc option io" where
  "burn_subtitles ev video sub out sub_ext =
     run_ff ev (burn_cmd video (if is_ass_ext sub_ext then vf_ass sub else vf_subtitles sub) out)
       7200"

definition burn_ffmpeg_conv :: "env \<Rightarrow> ustr \<Rightarrow> ustr \<Rightarrow> ustr \<Rightarrow> ustr \<Rightarrow> proc option io" where
  "burn_ffmpeg_conv ev video sub out work_dir =
     io_bind (run_ff ev [u ''ffmpeg'', u ''-y'', u ''-i'', sub,
                         path_join work_dir (u ''conv.ass'')] 60) (\<lambda>r w.
       if (case r of None \<Rightarrow> False | Some p \<Rightarrow> returncode p = 0)
          \<and> path_exists (path_join work_dir (u ''conv.ass'')) w
       then run_ff ev (burn_cmd video (vf_ass (path_join work_dir (u ''conv.ass''))) out) 7200 w
       else io_return None w)"

datatype burn_method = BurnAss | BurnSubtitles | BurnFfmpegConv

definition hard_methods :: "(ustr \<times> burn_method) list" where
  "hard_methods =
     [(u ''Dual-style ASS burn'', BurnAss),
      (u ''Subtitles filter'', BurnSubtitles),
      (u ''FFmpeg ASS convert'', BurnFfmpegConv)]"

record job =
  v_path :: ustr
  s_path :: ustr
  s_ext :: ustr
  job_dir :: ustr
  info :: "int \<times> int \<times> rat"
  margin :: "rat option"

definition run_method :: "env \<Rightarrow> job \<Rightarrow> ustr \<Rightarrow> burn_method \<Rightarrow> proc option io" where
  "run_method ev j out_path mfn =
     (case mfn of
        BurnAss \<Rightarrow> burn_ass ev (v_path j) (s_path j) out_path (job_dir j) (info j) (margin j)
      | BurnSubtitles \<Rightarrow> burn_subtitles ev (v_path j) (s_path j) out_path (s_ext j)
      | BurnFfmpegConv \<Rightarrow> burn_ffmpeg_conv ev (v_path j) (s_path j) out_path (job_dir j))"

text \<open>
  The loop over the methods, on \<open>success\<close> and \<open>last_err\<close>. The message before the
  \<open>try\<close> is outside it; inside, a good result is logged before \<open>success\<close> is set, and
  the handler logs after it has set \<open>last_err\<close>.
\<close>

fun hard_loop ::
  "env \<Rightarrow> job \<Rightarrow> ustr \<Rightarrow> (ustr \<times> burn_method) list \<Rightarrow> ustr \<Rightarrow> (bool \<times> ustr) io" where
  "hard_loop ev j out_path [] last_err = io_return (False, last_err)"
| "hard_loop ev j out_path ((mname, mfn) # rest) last_err =
     io_bind (do_log ev (LogTrying mname)) (\<lambda>_.
     io_bind
       (io_catch
          (io_bind (run_method ev j out_path mfn) (\<lambda>result w.
             if good result out_path w
             then io_bind (do_log ev (LogSuccess mname)) (\<lambda>_. io_return (True, last_err)) w
             else io_bind (remove_if_exists out_path)
                    (\<lambda>_. io_return (False, err_tail result (u ''failed silently''))) w))
          (\<lambda>ex. io_bind (do_log ev (LogError mname (exn_text ex)))
                  (\<lambda>_. io_return (False, exn_text ex))))
       (\<lambda>r. if fst r then io_return r else hard_loop ev j out_path rest (snd r)))"

subsection \<open>Soft subtitle methods\<close>

definition soft_mkv :: "env \<Rightarrow> ustr \<Rightarrow> ustr \<Rightarrow> ustr \<Rightarrow> ustr \<Rightarrow> proc option io" where
  "soft_mkv ev video sub mkv sub_ext =
     run_ff ev
       [u ''ffmpeg'', u ''-y'', u ''-i'', video, u ''-i'', sub,
        u ''-map'', u ''0:v'', u ''-map'', u ''0:a?'', u ''-map'', u ''1:0'',
        u ''-c:v'', u ''copy'', u ''-c:a'', u ''copy'',
        u ''-c:s'', (if is_ass_ext sub_ext then u ''ass'' else u ''srt''),
        u ''-metadata:s:s:0'', u ''language=eng'', u ''-disposition:s:0'', u ''default'', mkv]
       3600"

text \<open>\<open>clean_srt\<close>: the entries numbered from 1, each as a SubRip block.\<close>

fun clean_blocks :: "nat \<Rightarrow> entry list \<Rightarrow> ustr" where
  "clean_blocks i [] = []"
| "clean_blocks i (e # es) =
     str_int (int i) @ [10]
     @ format_srt_time (e_start e) @ u '' --> '' @ format_srt_time (e_end e) @ [10]
     @ e_text e @ [10, 10]
     @ clean_blocks (Suc i) es"

definition clean_srt :: "ustr \<Rightarrow> ustr \<Rightarrow> nat io" where
  "clean_srt src dst =
     io_bind (parse_srt_file src) (\<lambda>entries.
     io_bind (write_file dst (utf8_encode (clean_blocks 1 entries))) (\<lambda>_.
     io_return (length entries)))"

definition soft_mp4 :: "env \<Rightarrow> ustr \<Rightarrow> ustr \<Rightarrow> ustr \<Rightarrow> ustr \<Rightarrow> proc option io" where
  "soft_mp4 ev video sub out work_dir =
     io_bind (clean_srt sub (path_join work_dir (u ''clean.srt''))) (\<lambda>_.
     run_ff ev
       [u ''ffmpeg'', u ''-y'', u ''-i'', video, u ''-i'', path_join work_dir (u ''clean.srt''),
        u ''-map'', u ''0:v'', u ''-map'', u ''0:a?'', u ''-map'', u ''1:0'',
        u ''-c:v'', u ''copy'', u ''-c:a'', u ''copy'', u ''-c:s'', u ''mov_text'',
        u ''-metadata:s:s:0'', u ''language=eng'', u ''-disposition:s:0'', u ''default'',
        u ''-movflags'', u ''+faststart'', out]
       3600)"

text \<open>
  The two soft attempts give the output path and name on success, or the last error.
  In each, \<open>success\<close> is set before the message is logged, so an exception of the
  callback is caught with the output already chosen.
\<close>

definition try_mkv :: "env \<Rightarrow> job \<Rightarrow> ustr \<Rightarrow> ((ustr \<times> ustr) option \<times> ustr) io" where
  "try_mkv ev j safe =
     io_catch
       (io_bind (soft_mkv ev (v_path j) (s_path j) (path_join (job_dir j) (safe @ u ''.mkv''))
                   (s_ext j)) (\<lambda>r w.
          if good r (path_join (job_dir j) (safe @ u ''.mkv'')) w
          then io_catch
                 (io_bind (do_log ev LogMkvOk) (\<lambda>_.
                    io_return (Some (path_join (job_dir j) (safe @ u ''.mkv''),
                                     safe @ u ''.mkv''), [])))
                 (\<lambda>ex. io_return (Some (path_join (job_dir j) (safe @ u ''.mkv''),
                                         safe @ u ''.mkv''), exn_text ex)) w
          else io_return (None, err_tail r (u ''mkv failed'')) w))
       (\<lambda>ex. io_return (None, exn_text ex))"

definition try_mp4 :: "env \<Rightarrow> job \<Rightarrow> ustr \<Rightarrow> ((ustr \<times> ustr) option \<times> ustr) io" where
  "try_mp4 ev j safe =
     io_catch
       (io_bind (soft_mp4 ev (v_path j) (s_path j) (path_join (job_dir j) (safe @ u ''.mp4''))
                   (job_dir j)) (\<lambda>r w.
          if good r (path_join (job_dir j) (safe @ u ''.mp4'')) w
          then io_catch
                 (io_bind (do_log ev LogMp4Ok) (\<lambda>_.
                    io_return (Some (path_join (job_dir j) (safe @ u ''.mp4''),
                                     safe @ u ''.mp4''), [])))
                 (\<lambda>ex. io_return (Some (path_join (job_dir j) (safe @ u ''.mp4''),
                                         safe @ u ''.mp4''), exn_text ex)) w
          else io_return (None, err_tail r (u ''mp4 failed'')) w))
       (\<lambda>ex. io_return (None, exn_text ex))"

subsection \<open>The job\<close>

text \<open>\<open>'{:.1f}'\<close> of a non-negative float: its exact value, rounded half to even.\<close>

definition fmt_1f :: "rat \<Rightarrow> ustr" where
  "fmt_1f x =
     (let r = round_half_even (x * 10) in str_int (r div 10) @ u ''.'' @ str_int (r mod 10))"

definition size_mb :: "bytes \<Rightarrow> rat" where
  "size_mb bs = fl (fl (of_nat (length bs) / 1024) / 1024)"

definition finalize :: "env \<Rightarrow> ustr \<Rightarrow> ustr \<Rightarrow> merge_result io" where
  "finalize ev out_path out_name =
     io_bind (read_file out_path) (\<lambda>out_bytes.
     io_bind (do_log ev (LogDone (fmt_1f (size_mb out_bytes)))) (\<lambda>_.
     io_return \<lparr>success = True, output_bytes = Some out_bytes, filename = Some out_name,
                message = u ''Done! ('' @ fmt_1f (size_mb out_bytes) @ u '' MB)''\<rparr>))"

definition hard_chain :: "env \<Rightarrow> job \<Rightarrow> ustr \<Rightarrow> bool \<times> bool \<Rightarrow> merge_result io" where
  "hard_chain ev j safe flt =
     (if \<not> (snd flt \<or> fst flt)
      then io_return (failure (u ''No subtitle filters available in FFmpeg''))
      else io_bind (hard_loop ev j (path_join (job_dir j) (safe @ u ''.mp4'')) hard_methods
                      (u ''No methods ran'')) (\<lambda>r.
             if \<not> fst r
             then io_return (failure (u ''All methods failed: '' @ take 200 (snd r)))
             else finalize ev (path_join (job_dir j) (safe @ u ''.mp4'')) (safe @ u ''.mp4'')))"

definition soft_chain :: "env \<Rightarrow> job \<Rightarrow> ustr \<Rightarrow> merge_result io" where
  "soft_chain ev j safe =
     io_bind (do_log ev LogTryMkv) (\<lambda>_.
     io_bind (try_mkv ev j safe) (\<lambda>r1.
       case fst r1 of
         Some out \<Rightarrow> finalize ev (fst out) (snd out)
       | None \<Rightarrow>
           io_bind (do_log ev LogTryMp4) (\<lambda>_.
           io_bind (try_mp4 ev j safe) (\<lambda>r2.
             case fst r2 of
               Some out \<Rightarrow> finalize ev (fst out) (snd out)
             | None \<Rightarrow>
                 io_return (failure (u ''Soft-sub failed: '' @ take 200 (snd r2)))))))"

text \<open>The body of the \<open>try\<close> statement, for the job directory that was made.\<close>

definition episode_body ::
  "env \<Rightarrow> bytes \<Rightarrow> ustr \<Rightarrow> bytes \<Rightarrow> ustr \<Rightarrow> ustr \<Rightarrow> ustr \<Rightarrow> rat option \<Rightarrow> ustr
   \<Rightarrow> merge_result io" where
  "episode_body ev video_bytes video_name srt_bytes srt_name ep_name merge_type
     margin_v_pct jd =
     (let v_ext = (if suffix_lower ev video_name = [] then u ''.mp4''
                   else suffix_lower ev video_name);
          s_ext = (if suffix_lower ev srt_name = [] then u ''.srt''
                   else suffix_lower ev srt_name);
          vp = path_join jd (u ''video'' @ v_ext);
          sp = path_join jd (u ''subs'' @ s_ext)
      in io_bind (write_file vp video_bytes) (\<lambda>_.
         io_bind (write_file sp srt_bytes) (\<lambda>_.
         io_bind (getsize vp) (\<lambda>vsize.
           if vsize < 1000 then io_return (failure (u ''Video file too small or corrupt''))
           else io_bind (getsize sp) (\<lambda>ssize.
             if ssize < 5 then io_return (failure (u ''Subtitle file too small or corrupt''))
             else io_bind (parse_srt_file sp) (\<lambda>entries.
               if entries = []
               then io_return
                      (failure (u ''No subtitle entries found '' @ [8212]
                                @ u '' check SRT format''))
               else io_bind (do_log ev (LogSubtitles (length entries))) (\<lambda>_.
                    io_bind (get_video_info ev vp) (\<lambda>inf.
                    io_bind (do_log ev (LogVideo (fst inf) (fst (snd inf)) (snd (snd inf))))
                      (\<lambda>_.
                    io_bind (check_filters ev) (\<lambda>flt.
                      if merge_type = u ''hard''
                      then hard_chain ev
                             \<lparr>v_path = vp, s_path = sp, s_ext = s_ext, job_dir = jd,
                              info = inf, margin = margin_v_pct\<rparr>
                             (safe_name ep_name) flt
                      else soft_chain ev
                             \<lparr>v_path = vp, s_path = sp, s_ext = s_ext, job_dir = jd,
                              info = inf, margin = margin_v_pct\<rparr>
                             (safe_name ep_name)))))))))))"

text \<open>
  \<open>process_episode\<close>: the directory is made before the \<open>try\<close>, so a failure to make
  it reaches the caller; every exception of the body becomes a failure result with its
  text; and the directory is removed in the \<open>finally\<close> clause.
\<close>

definition process_episode ::
  "env \<Rightarrow> bytes \<Rightarrow> ustr \<Rightarrow> bytes \<Rightarrow> ustr \<Rightarrow> ustr \<Rightarrow> ustr \<Rightarrow> rat option \<Rightarrow> world
   \<Rightarrow> exn + (merge_result \<times> world)" where
  "process_episode ev video_bytes video_name srt_bytes srt_name ep_name merge_type
     margin_v_pct w =
     (case mkdtemp ev w of
        Inl ex \<Rightarrow> Inl ex
      | Inr (jd, w1) \<Rightarrow>
          (case episode_body ev video_bytes video_name srt_bytes srt_name ep_name merge_type
                  margin_v_pct jd w1 of
             (Inl ex, w2) \<Rightarrow> Inr (failure (exn_text ex), rmtree jd w2)
           | (Inr res, w2) \<Rightarrow> Inr (res, rmtree jd w2)))"

subsection \<open>A small world\<close>

text \<open>
  An empty world, and an environment in which every external command times out, the
  probe fails, both filters are there and nothing is logged; it is used to run the job
  on concrete payloads.
\<close>

definition world0 :: world where
  "world0 = \<lparr>dirs = {}, files = (\<lambda>_. None), calls = [], logged = []\<rparr>"

definition env0 :: env where
  "env0 =
     \<lparr>tmp_names = [u ''/tmp/st_merger_a''],
      suffix_lower = (\<lambda>_. []),
      run_process = (\<lambda>cmd timeout fs. (None, fs)),
      probe = (\<lambda>cmd fs. None),
      filters = (True, True),
      log_fn = None\<rparr>"

section \<open>Properties of the sanitised name\<close>

lemma sub_unsafe_clean: "c \<in> set (sub_unsafe s) \<Longrightarrow> c \<notin> set unsafe_chars"
  by (auto simp: sub_unsafe_def unsafe_chars_def US_def)

lemma set_sub_underscores: "set (sub_underscores s) \<subseteq> set s"
proof (induction s rule: sub_underscores.induct)
  case 1
  show ?case by simp
next
  case (2 c cs)
  have "set (dropWhile (\<lambda>d. d = US) cs) \<subseteq> set cs"
    by (auto dest: set_dropWhileD)
  with 2 show ?case by auto
qed

lemma set_strip_underscores: "set (strip_underscores s) \<subseteq> set s"
  by (auto simp: strip_underscores_def dest!: set_dropWhileD)

lemma sub_underscores_hd:
  "sub_underscores s = c # d # r \<Longrightarrow> \<not> (c = US \<and> d = US)"
proof (cases s)
  case Nil
  assume "sub_underscores s = c # d # r"
  with Nil show ?thesis by simp
next
  case (Cons a as)
  assume eq: "sub_underscores s = c # d # r"
  show ?thesis
  proof (cases "a = US")
    case False
    with eq Cons show ?thesis by auto
  next
    case True
    with eq Cons have c: "c = US"
      and rest: "sub_underscores (dropWhile (\<lambda>d. d = US) as) = d # r"
      by auto
    have "d \<noteq> US"
    proof (cases "dropWhile (\<lambda>d. d = US) as")
      case Nil
      with rest show ?thesis by simp
    next
      case (Cons b bs)
      then have "b \<noteq> US"
        using hd_dropWhile [of "\<lambda>d. d = US" as] by auto
      with rest Cons show ?thesis by auto
    qed
    then show ?thesis by simp
  qed
qed

lemma sub_underscores_no_double: "\<not> has_double_underscore (sub_underscores s)"
proof (induction s rule: sub_underscores.induct)
  case 1
  show ?case by simp
next
  case (2 c cs)
  show ?case
  proof (cases "c = US")
    case True
    let ?t = "sub_underscores (dropWhile (\<lambda>d. d = US) cs)"
    from 2 True have ih: "\<not> has_double_underscore ?t" by simp
    show ?thesis
    proof (cases ?t)
      case Nil
      with True show ?thesis by simp
    next
      case (Cons d r)
      have "d \<noteq> US"
      proof (cases "dropWhile (\<lambda>d. d = US) cs")
        case Nil
        with Cons show ?thesis by simp
      next
        case (Cons b bs)
        then have "b \<noteq> US"
          using hd_dropWhile [of "\<lambda>d. d = US" cs] by auto
        with Cons \<open>?t = d # r\<close> show ?thesis by auto
      qed
      with ih Cons True show ?thesis by simp
    qed
  next
    case False
    from 2 False have ih: "\<not> has_double_underscore (sub_underscores cs)" by simp
    show ?thesis
    proof (cases "sub_underscores cs")
      case Nil
      with False show ?thesis by simp
    next
      case (Cons d r)
      with ih False show ?thesis by simp
    qed
  qed
qed

lemma no_double_dropWhile:
  "\<not> has_double_underscore s \<Longrightarrow> \<not> has_double_underscore (dropWhile P s)"
proof (induction s rule: has_double_underscore.induct)
  case (1 c d cs)
  then show ?case by (cases "P c") auto
qed auto

lemma has_double_snoc:
  "has_double_underscore (s @ [a]) =
     (has_double_underscore s \<or> (s \<noteq> [] \<and> last s = US \<and> a = US))"
proof (induction s rule: has_double_underscore.induct)
  case (1 c d cs)
  then show ?case by (cases cs) auto
qed auto

lemma has_double_rev: "has_double_underscore (rev s) = has_double_underscore s"
proof (induction s rule: has_double_underscore.induct)
  case (1 c d cs)
  have "has_double_underscore (rev (c # d # cs)) =
        has_double_underscore (rev (d # cs) @ [c])"
    by simp
  also have "\<dots> = (has_double_underscore (rev (d # cs)) \<or> (d = US \<and> c = US))"
    unfolding has_double_snoc by simp
  also have "\<dots> = has_double_underscore (c # d # cs)"
    using 1 by auto
  finally show ?case .
qed auto

lemma strip_underscores_no_double:
  "\<not> has_double_underscore s \<Longrightarrow> \<not> has_double_underscore (strip_underscores s)"
  by (simp add: strip_underscores_def has_double_rev no_double_dropWhile)

lemma strip_underscores_hd:
  "strip_underscores s \<noteq> [] \<Longrightarrow> hd (strip_underscores s) \<noteq> US"
proof -
  assume ne: "strip_underscores s \<noteq> []"
  define a where "a = dropWhile (\<lambda>d. d = US) s"
  define b where "b = dropWhile (\<lambda>d. d = US) (rev a)"
  from ne have b: "b \<noteq> []" by (simp add: strip_underscores_def a_def b_def)
  have a: "a \<noteq> []"
  proof
    assume "a = []"
    then have "b = []" by (simp add: b_def)
    with b show False by simp
  qed
  then have "\<not> (hd a = US)" unfolding a_def by (rule hd_dropWhile)
  moreover obtain p where "rev a = p @ b"
    unfolding b_def by (metis takeWhile_dropWhile_id)
  then have "a = rev b @ rev p" by (metis rev_append rev_rev_ident)
  with b have "hd a = hd (rev b)" by simp
  ultimately show ?thesis by (simp add: strip_underscores_def a_def b_def)
qed

lemma strip_underscores_last:
  "strip_underscores s \<noteq> [] \<Longrightarrow> last (strip_underscores s) \<noteq> US"
proof -
  assume ne: "strip_underscores s \<noteq> []"
  define b where "b = dropWhile (\<lambda>d. d = US) (rev (dropWhile (\<lambda>d. d = US) s))"
  from ne have b: "b \<noteq> []" by (simp add: strip_underscores_def b_def)
  then have "\<not> (hd b = US)" unfolding b_def by (rule hd_dropWhile)
  with b show ?thesis by (simp add: strip_underscores_def last_rev b_def)
qed

text \<open>
  C10. For every episode display name the sanitised base name is not empty; it is the
  name with each unsafe character replaced by an underscore, runs of underscores
  collapsed and underscores stripped from both ends, or the literal \<open>episode\<close> when that
  is empty. Hence it holds no unsafe character, no two adjacent underscores, and neither
  starts nor ends with an underscore.
\<close>

theorem safe_name_nonempty_sanitised:
  "safe_name ep \<noteq> []
   \<and> safe_name ep =
       (if strip_underscores (sub_underscores (sub_unsafe ep)) = [] then u ''episode''
        else strip_underscores (sub_underscores (sub_unsafe ep)))
   \<and> (\<forall>c \<in> set (safe_name ep). c \<notin> set unsafe_chars)
   \<and> \<not> has_double_underscore (safe_name ep)
   \<and> hd (safe_name ep) \<noteq> US \<and> last (safe_name ep) \<noteq> US"
proof -
  let ?s = "strip_underscores (sub_underscores (sub_unsafe ep))"
  show ?thesis
  proof (cases "?s = []")
    case True
    then have "safe_name ep = u ''episode''" by (simp add: safe_name_def)
    then show ?thesis using True
      by (simp add: u_def unsafe_chars_def US_def)
  next
    case False
    then have eq: "safe_name ep = ?s" by (simp add: safe_name_def Let_def)
    have "\<forall>c \<in> set ?s. c \<notin> set unsafe_chars"
      using set_strip_underscores set_sub_underscores sub_unsafe_clean by blast
    moreover have "\<not> has_double_underscore ?s"
      by (rule strip_underscores_no_double) (rule sub_underscores_no_double)
    moreover have "hd ?s \<noteq> US" "last ?s \<noteq> US"
      using False by (rule strip_underscores_hd, rule strip_underscores_last)
    ultimately show ?thesis using False eq by simp
  qed
qed

theorem safe_name_nonempty_sanitised_witness:
  "safe_name (u ''__a<b::c__'') = u ''a_b_c''
   \<and> 60 \<notin> set (safe_name (u ''__a<b::c__''))
   \<and> \<not> has_double_underscore (safe_name (u ''__a<b::c__''))
   \<and> safe_name (u ''??'') = u ''episode''"
proof -
  have a: "safe_name (u ''__a<b::c__'') = u ''a_b_c''"
    by (simp add: safe_name_def strip_underscores_def sub_unsafe_def unsafe_chars_def
        u_def US_def)
  have b: "safe_name (u ''??'') = u ''episode''"
    by (simp add: safe_name_def strip_underscores_def sub_unsafe_def unsafe_chars_def
        u_def US_def)
  have c: "60 \<in> set unsafe_chars" by (simp add: unsafe_chars_def)
  from safe_name_nonempty_sanitised [of "u ''__a<b::c__''"] a b c show ?thesis
    by auto
qed

section \<open>Facts about float rounding\<close>


lemma pow2_powi: "pow2 k = 2 powi k"
  by (simp add: pow2_def power_int_def power_one_over inverse_eq_divide)

lemma pow2_pos: "0 < pow2 k"
  by (simp add: pow2_powi)

lemma pow2_add: "pow2 (a + b) = pow2 a * pow2 b"
  by (simp add: pow2_powi power_int_add)

lemma pow2_mono: "a \<le> b \<Longrightarrow> pow2 a \<le> pow2 b"
  by (simp add: pow2_powi power_int_increasing)

lemma pow2_nat: "0 \<le> k \<Longrightarrow> pow2 k = 2 ^ nat k"
  by (simp add: pow2_def)

lemma binade_lower: assumes "0 < q" shows "pow2 (binade q) \<le> q"
proof (cases "1 \<le> q")
  case True
  define f where "f = \<lfloor>q\<rfloor>"
  from True have f1: "1 \<le> f" by (simp add: f_def)
  then have b: "(2::int) ^ nat (bitlen f - 1) \<le> f" using bitlen_bounds [of f] by simp
  have "1 \<le> bitlen f" using f1 bitlen_bounds [of f] bitlen_nonneg [of f]
    by (cases "bitlen f = 0") auto
  then have "pow2 (binade q) = 2 ^ nat (bitlen f - 1)"
    using True by (simp add: binade_def f_def pow2_def)
  also have "\<dots> = of_int (2 ^ nat (bitlen f - 1))" by simp
  also have "\<dots> \<le> of_int f" using b by (simp only: of_int_le_iff)
  also have "\<dots> \<le> q" by (simp add: f_def)
  finally show ?thesis .
next
  case False
  define k where "k = \<lceil>1 / q\<rceil> - 1"
  from False assms have "1 < 1 / q" by simp
  then have k1: "1 \<le> k" unfolding k_def by (simp add: less_ceiling_iff)
  then have b: "k < 2 ^ nat (bitlen k)" using bitlen_bounds [of k] by simp
  have "1 / q \<le> of_int (k + 1)" unfolding k_def by (simp add: le_of_int_ceiling)
  also have "\<dots> \<le> of_int (2 ^ nat (bitlen k))" using b by (simp only: of_int_le_iff)
  finally have "1 / q \<le> 2 ^ nat (bitlen k)" by simp
  then have "1 / 2 ^ nat (bitlen k) \<le> q" using assms
    by (simp add: field_simps)
  moreover have "pow2 (binade q) = 1 / 2 ^ nat (bitlen k)"
    using False bitlen_nonneg [of k] by (simp add: binade_def k_def pow2_def)
  ultimately show ?thesis by simp
qed

lemma binade_upper: assumes "0 < q" shows "q < pow2 (binade q + 1)"
proof (cases "1 \<le> q")
  case True
  define f where "f = \<lfloor>q\<rfloor>"
  from True have f1: "1 \<le> f" by (simp add: f_def)
  then have b: "f < 2 ^ nat (bitlen f)" using bitlen_bounds [of f] by simp
  have "q < of_int (f + 1)" unfolding f_def by linarith
  also have "\<dots> \<le> of_int (2 ^ nat (bitlen f))" using b by (simp only: of_int_le_iff)
  also have "\<dots> = pow2 (binade q + 1)"
    using True bitlen_nonneg [of f] by (simp add: binade_def f_def pow2_def)
  finally show ?thesis .
next
  case False
  define k where "k = \<lceil>1 / q\<rceil> - 1"
  from False assms have "1 < 1 / q" by simp
  then have k1: "1 \<le> k" unfolding k_def by (simp add: less_ceiling_iff)
  then have b: "2 ^ nat (bitlen k - 1) \<le> k" using bitlen_bounds [of k] by simp
  have bl: "1 \<le> bitlen k" using k1 bitlen_bounds [of k] bitlen_nonneg [of k]
    by (cases "bitlen k = 0") auto
  have "of_int (2 ^ nat (bitlen k - 1)) \<le> (of_int k :: rat)" using b by (simp only: of_int_le_iff)
  also have "of_int k < 1 / q" unfolding k_def by linarith
  finally have "2 ^ nat (bitlen k - 1) < 1 / q" by simp
  then have "q < 1 / 2 ^ nat (bitlen k - 1)" using assms
    by (simp add: field_simps)
  moreover have "pow2 (binade q + 1) = 1 / 2 ^ nat (bitlen k - 1)"
  proof (cases "bitlen k = 1")
    case True
    with False show ?thesis by (simp add: binade_def k_def pow2_def)
  next
    case F: False
    with bl have "1 < bitlen k" by simp
    then have "nat (bitlen k - 1) = nat (- (1 - bitlen k))" by simp
    with F bl False show ?thesis
      by (simp add: binade_def k_def pow2_def)
  qed
  ultimately show ?thesis by simp
qed

lemma pow2_Suc: "pow2 (k + 1) = 2 * pow2 k"
  by (simp add: pow2_add) (simp add: pow2_def)

lemma round_half_even_int: "round_half_even (of_int n) = n"
  by (simp add: round_half_even_def)

lemma round_half_even_bounds:
  "of_int (round_half_even m) \<le> m + 1 / 2 \<and> m - 1 / 2 \<le> of_int (round_half_even m)"
  unfolding round_half_even_def Let_def by (auto; linarith)

lemma round_half_even_ge: assumes "of_int n \<le> m" shows "n \<le> round_half_even m"
proof -
  from assms have "n \<le> \<lfloor>m\<rfloor>" by (simp add: le_floor_iff)
  then show ?thesis unfolding round_half_even_def Let_def by auto
qed

lemma round_half_even_le: assumes "m \<le> of_int n" shows "round_half_even m \<le> n"
proof (cases "m = of_int n")
  case True
  then show ?thesis by (simp add: round_half_even_int)
next
  case False
  with assms have "m < of_int n" by simp
  then have "\<lfloor>m\<rfloor> < n" by (simp add: floor_less_iff)
  then show ?thesis unfolding round_half_even_def Let_def by auto
qed

lemma round_half_even_mono:
  assumes "a \<le> b" shows "round_half_even a \<le> round_half_even b"
proof (cases "\<lfloor>a\<rfloor> = \<lfloor>b\<rfloor>")
  case True
  with assms show ?thesis unfolding round_half_even_def Let_def by auto
next
  case False
  with assms have "\<lfloor>a\<rfloor> < \<lfloor>b\<rfloor>" using floor_mono [of a b] by linarith
  then have "\<lfloor>a\<rfloor> + 1 \<le> \<lfloor>b\<rfloor>" by simp
  moreover have "round_half_even a \<le> \<lfloor>a\<rfloor> + 1"
    unfolding round_half_even_def Let_def by auto
  moreover have "\<lfloor>b\<rfloor> \<le> round_half_even b"
    unfolding round_half_even_def Let_def by auto
  ultimately show ?thesis by linarith
qed

lemma fl_pos_eq:
  "0 < q \<Longrightarrow> fl q = of_int (round_half_even (q / pow2 (fexp q - 52))) * pow2 (fexp q - 52)"
  by (simp add: fl_def fexp_def Let_def)

lemma fl_zero: "fl 0 = 0"
  by (simp add: fl_def)

lemma fl_minus: "fl (- q) = - fl q"
  by (simp add: fl_def Let_def sgn_minus)

lemma fl_nonneg: assumes "0 \<le> q" shows "0 \<le> fl q"
proof (cases "q = 0")
  case True
  then show ?thesis by (simp add: fl_zero)
next
  case False
  with assms have q: "0 < q" by simp
  have "0 \<le> q / pow2 (fexp q - 52)" using q pow2_pos by (simp add: less_imp_le)
  then have "(0::int) \<le> round_half_even (q / pow2 (fexp q - 52))"
    using round_half_even_ge [of 0] by simp
  then show ?thesis using q pow2_pos [of "fexp q - 52"]
    by (simp add: fl_pos_eq less_imp_le)
qed

lemma fexp_mono: assumes "0 < a" "a \<le> b" shows "fexp a \<le> fexp b"
proof -
  have "binade a \<le> binade b"
  proof (rule ccontr)
    assume "\<not> binade a \<le> binade b"
    then have "binade b + 1 \<le> binade a" by simp
    then have "pow2 (binade b + 1) \<le> pow2 (binade a)" by (rule pow2_mono)
    also have "\<dots> \<le> a" using assms by (simp add: binade_lower)
    finally show False using binade_upper [of b] assms by simp
  qed
  then show ?thesis by (simp add: fexp_def)
qed

lemma fl_upper: assumes "0 < q" "q \<le> pow2 k" "- 1022 \<le> k" shows "fl q \<le> pow2 k"
proof -
  have e: "fexp q \<le> k"
  proof (rule ccontr)
    assume "\<not> fexp q \<le> k"
    with assms(3) have "k + 1 \<le> binade q" by (simp add: fexp_def)
    then have "pow2 (k + 1) \<le> pow2 (binade q)" by (rule pow2_mono)
    also have "\<dots> \<le> q" using assms by (simp add: binade_lower)
    finally have "pow2 (k + 1) \<le> pow2 k" using assms by simp
    then show False using pow2_pos [of k] by (simp add: pow2_Suc)
  qed
  define d where "d = k - (fexp q - 52)"
  have d0: "0 \<le> d" using e by (simp add: d_def)
  have pk: "pow2 k = pow2 d * pow2 (fexp q - 52)"
    unfolding d_def pow2_add [symmetric] by simp
  have "q / pow2 (fexp q - 52) \<le> pow2 d"
    using assms(2) pow2_pos [of "fexp q - 52"] by (simp add: pk field_simps)
  also have "pow2 d = of_int (2 ^ nat d)" using d0 by (simp add: pow2_nat)
  finally have "round_half_even (q / pow2 (fexp q - 52)) \<le> 2 ^ nat d"
    by (rule round_half_even_le)
  then have "(of_int (round_half_even (q / pow2 (fexp q - 52))) :: rat) \<le> of_int (2 ^ nat d)"
    by (simp only: of_int_le_iff)
  then have "of_int (round_half_even (q / pow2 (fexp q - 52))) \<le> pow2 d"
    using d0 by (simp add: pow2_nat)
  then show ?thesis using pow2_pos [of "fexp q - 52"]
    by (simp add: fl_pos_eq [OF assms(1)] pk)
qed

lemma fl_lower: assumes "0 < q" "pow2 k \<le> q" "fexp q - 52 \<le> k" shows "pow2 k \<le> fl q"
proof -
  define d where "d = k - (fexp q - 52)"
  have d0: "0 \<le> d" using assms(3) by (simp add: d_def)
  have pk: "pow2 k = pow2 d * pow2 (fexp q - 52)"
    unfolding d_def pow2_add [symmetric] by simp
  have "pow2 d \<le> q / pow2 (fexp q - 52)"
    using assms(2) pow2_pos [of "fexp q - 52"] by (simp add: pk field_simps)
  moreover have "pow2 d = of_int (2 ^ nat d)" using d0 by (simp add: pow2_nat)
  ultimately have "2 ^ nat d \<le> round_half_even (q / pow2 (fexp q - 52))"
    using round_half_even_ge [of "2 ^ nat d"] by simp
  then have "(of_int (2 ^ nat d) :: rat) \<le> of_int (round_half_even (q / pow2 (fexp q - 52)))"
    by (simp only: of_int_le_iff)
  then have "pow2 d \<le> of_int (round_half_even (q / pow2 (fexp q - 52)))"
    using d0 by (simp add: pow2_nat)
  then show ?thesis using pow2_pos [of "fexp q - 52"]
    by (simp add: fl_pos_eq [OF assms(1)] pk)
qed

lemma fl_mono_pos: assumes "0 < a" "a \<le> b" shows "fl a \<le> fl b"
proof (cases "fexp a = fexp b")
  case True
  have b: "0 < b" using assms by simp
  have "a / pow2 (fexp b - 52) \<le> b / pow2 (fexp b - 52)"
    using assms pow2_pos [of "fexp b - 52"] by (simp add: divide_right_mono less_imp_le)
  then have "round_half_even (a / pow2 (fexp b - 52)) \<le> round_half_even (b / pow2 (fexp b - 52))"
    by (rule round_half_even_mono)
  then show ?thesis using pow2_pos [of "fexp b - 52"]
    by (simp add: fl_pos_eq [OF assms(1)] fl_pos_eq [OF b] True)
next
  case False
  have b: "0 < b" using assms by simp
  from False fexp_mono [OF assms] have lt: "fexp a + 1 \<le> fexp b" by simp
  then have eb: "fexp b = binade b" by (simp add: fexp_def)
  have "a < pow2 (binade a + 1)" using assms by (simp add: binade_upper)
  also have "\<dots> \<le> pow2 (fexp a + 1)" by (rule pow2_mono) (simp add: fexp_def)
  finally have "fl a \<le> pow2 (fexp a + 1)"
    using fl_upper [OF assms(1), of "fexp a + 1"] by (simp add: fexp_def)
  also have "\<dots> \<le> pow2 (fexp b)" using lt by (rule pow2_mono)
  also have "\<dots> \<le> fl b"
    using fl_lower [OF b, of "fexp b"] binade_lower [OF b] eb by simp
  finally show ?thesis .
qed

lemma fl_mono: assumes "a \<le> b" shows "fl a \<le> fl b"
proof -
  consider "0 < a" | "a \<le> 0" "0 \<le> b" | "b < 0" by linarith
  then show ?thesis
  proof cases
    case 1
    from 1 assms show ?thesis by (rule fl_mono_pos)
  next
    case 2
    have "fl a \<le> 0" using fl_nonneg [of "- a"] 2 by (simp add: fl_minus)
    also have "0 \<le> fl b" using 2 by (simp add: fl_nonneg)
    finally show ?thesis .
  next
    case 3
    then have "fl (- b) \<le> fl (- a)" using assms by (intro fl_mono_pos) auto
    then show ?thesis by (simp add: fl_minus)
  qed
qed

section \<open>Facts about the layout\<close>

lemma int_of_product_nonneg:
  assumes "0 \<le> i" "0 \<le> x" "int_of_product i x = Inr r" shows "0 \<le> r"
proof -
  have "0 \<le> fl (of_int i)" using assms(1) by (simp add: fl_nonneg)
  then have "0 \<le> fl (fl (of_int i) * x)" using assms(2) by (simp add: fl_nonneg)
  then have "0 \<le> trunc (fl (fl (of_int i) * x))" by (simp add: trunc_def)
  with assms(3) show ?thesis by (auto simp: int_of_product_def split: if_splits)
qed

lemma fl_const_nonneg: "0 \<le> GAP_PCT" "0 \<le> CHINESE_FONT_PCT"
  by (simp_all add: GAP_PCT_def CHINESE_FONT_PCT_def fl_nonneg)

lemma create_ass_layout_margins:
  assumes "0 < h" "0 \<le> mv" "create_ass_layout w h (Some mv) = Inr l"
  shows "cjk_mv l < eng_mv l \<and> 0 \<le> cjk_mv l \<and> 0 \<le> eng_mv l"
proof -
  from assms(3) obtain a b m v g where
    a: "int_of_product h CHINESE_FONT_PCT = Inr a" and
    v: "int_of_product h mv = Inr v" and
    g: "int_of_product h GAP_PCT = Inr g" and
    l: "l = \<lparr>cjk_fs = max a 26, lat_fs = max b 20, mlr = m, cjk_mv = v,
                 eng_mv = v + max a 26 + g\<rparr>"
    by (auto simp: create_ass_layout_def split: sum.splits)
  have "0 \<le> v" using int_of_product_nonneg [OF _ assms(2) v] assms(1) by simp
  moreover have "0 \<le> g" using int_of_product_nonneg [OF _ fl_const_nonneg(1) g] assms(1) by simp
  ultimately show ?thesis by (simp add: l)
qed

lemma fl_abs: "\<bar>fl q\<bar> = fl \<bar>q\<bar>"
proof (cases "0 \<le> q")
  case True
  then show ?thesis by (simp add: fl_nonneg)
next
  case False
  then have "0 \<le> fl (- q)" by (simp add: fl_nonneg)
  with False show ?thesis by (simp add: fl_minus abs_if)
qed

lemma fl_abs_upper: assumes "\<bar>q\<bar> \<le> pow2 k" "- 1022 \<le> k" shows "\<bar>fl q\<bar> \<le> pow2 k"
proof (cases "q = 0")
  case True
  then show ?thesis using pow2_pos [of k] by (simp add: fl_zero less_imp_le)
next
  case False
  then have "0 < \<bar>q\<bar>" by simp
  from fl_upper [OF this assms] show ?thesis by (simp add: fl_abs)
qed

lemma not_overflows: assumes "\<bar>q\<bar> \<le> 2 ^ 1023" shows "\<not> overflows q"
proof -
  have "\<bar>q\<bar> \<le> pow2 1023" using assms by (simp add: pow2_def)
  then have "\<bar>fl q\<bar> \<le> pow2 1023" by (rule fl_abs_upper) simp
  then have "\<bar>fl q\<bar> \<le> 2 ^ 1023" by (simp add: pow2_def)
  also have "(2::rat) ^ 1023 < 2 ^ 1024" by simp
  finally show ?thesis by (simp add: overflows_def)
qed

lemma fl_abs_le_one: assumes "\<bar>q\<bar> \<le> 1" shows "\<bar>fl q\<bar> \<le> 1"
  using fl_abs_upper [of q 0] assms by (simp add: pow2_def)

lemma int_of_product_total:
  assumes "\<bar>i\<bar> \<le> 2 ^ 1023" "\<bar>x\<bar> \<le> 1"
  shows "int_of_product i x = Inr (trunc_product i x)"
proof -
  have "\<bar>of_int i :: rat\<bar> \<le> of_int (2 ^ 1023)"
    using assms(1) by (simp only: of_int_abs [symmetric] of_int_le_iff)
  then have i: "\<bar>of_int i :: rat\<bar> \<le> 2 ^ 1023" by simp
  then have o1: "\<not> overflows (of_int i)" by (rule not_overflows)
  have "\<bar>of_int i :: rat\<bar> \<le> pow2 1023" using i by (simp add: pow2_def)
  then have "\<bar>fl (of_int i)\<bar> \<le> pow2 1023" by (rule fl_abs_upper) simp
  then have "\<bar>fl (of_int i)\<bar> \<le> 2 ^ 1023" by (simp add: pow2_def)
  then have "\<bar>fl (of_int i) * x\<bar> \<le> 2 ^ 1023 * 1"
    unfolding abs_mult using assms(2) by (intro mult_mono) auto
  then have "\<not> overflows (fl (of_int i) * x)" by (intro not_overflows) simp
  with o1 show ?thesis by (simp add: int_of_product_def trunc_product_def)
qed

lemma int_of_product_Inr:
  "int_of_product i x = Inr r \<Longrightarrow> r = trunc_product i x"
  by (auto simp: int_of_product_def trunc_product_def split: if_splits)

lemma create_ass_layout_Inr:
  assumes "create_ass_layout w h (Some mv) = Inr l"
  shows "l = trunc_layout w h mv"
proof -
  from assms obtain a b m v g where
    "int_of_product h CHINESE_FONT_PCT = Inr a"
    "int_of_product h ENGLISH_FONT_PCT = Inr b"
    "int_of_product w (fl (6 / 100)) = Inr m"
    "int_of_product h mv = Inr v"
    "int_of_product h GAP_PCT = Inr g" and
    l: "l = \<lparr>cjk_fs = max a 26, lat_fs = max b 20, mlr = m, cjk_mv = v,
                 eng_mv = v + max a 26 + g\<rparr>"
    by (auto simp: create_ass_layout_def split: sum.splits)
  then show ?thesis
    by (auto simp: trunc_layout_def CHINESE_FONT_PCT_def ENGLISH_FONT_PCT_def GAP_PCT_def
        dest!: int_of_product_Inr)
qed

lemma create_ass_layout_total:
  assumes "\<bar>w\<bar> \<le> 2 ^ 1023" "\<bar>h\<bar> \<le> 2 ^ 1023" "\<bar>mv\<bar> \<le> 1"
  shows "create_ass_layout w h (Some mv) = Inr (trunc_layout w h mv)"
proof -
  define c6 :: rat where "c6 = fl (6 / 100)"
  have c: "\<bar>CHINESE_FONT_PCT\<bar> \<le> 1" "\<bar>ENGLISH_FONT_PCT\<bar> \<le> 1" "\<bar>GAP_PCT\<bar> \<le> 1"
    "\<bar>c6\<bar> \<le> 1"
    unfolding CHINESE_FONT_PCT_def ENGLISH_FONT_PCT_def GAP_PCT_def c6_def
    by (rule fl_abs_le_one, simp)+
  have p: "int_of_product h CHINESE_FONT_PCT = Inr (trunc_product h CHINESE_FONT_PCT)"
    "int_of_product h ENGLISH_FONT_PCT = Inr (trunc_product h ENGLISH_FONT_PCT)"
    "int_of_product w c6 = Inr (trunc_product w c6)"
    "int_of_product h mv = Inr (trunc_product h mv)"
    "int_of_product h GAP_PCT = Inr (trunc_product h GAP_PCT)"
    using assms c by (simp_all add: int_of_product_total)
  show ?thesis
    unfolding create_ass_layout_def trunc_layout_def
      CHINESE_FONT_PCT_def [symmetric] ENGLISH_FONT_PCT_def [symmetric]
      GAP_PCT_def [symmetric] c6_def [symmetric]
    by (simp add: p)
qed

text \<open>
  C5. For every width \<open>w > 0\<close>, height \<open>h > 0\<close> and margin fraction \<open>mv\<close> between
  \<open>0\<close> and \<open>1\<close> (which covers the range from \<open>0.05\<close> to \<open>0.45\<close>), every layout that
  \<open>create_ass\<close> computes has its English vertical margin strictly above the Chinese
  one, and both are non-negative integers; the layout is computed whenever the
  dimensions are within the float range.
\<close>

theorem layout_english_above_chinese:
  assumes "0 < w" "0 < h" "0 \<le> mv" "mv \<le> 1"
  shows "(w \<le> 2 ^ 1023 \<and> h \<le> 2 ^ 1023 \<longrightarrow>
            create_ass_layout w h (Some mv) = Inr (trunc_layout w h mv))
         \<and> (\<forall>l. create_ass_layout w h (Some mv) = Inr l \<longrightarrow>
               cjk_mv l < eng_mv l \<and> 0 \<le> cjk_mv l \<and> 0 \<le> eng_mv l)"
proof (intro conjI impI allI)
  assume "w \<le> 2 ^ 1023 \<and> h \<le> 2 ^ 1023"
  with assms show "create_ass_layout w h (Some mv) = Inr (trunc_layout w h mv)"
    by (intro create_ass_layout_total) auto
next
  fix l assume l: "create_ass_layout w h (Some mv) = Inr l"
  from create_ass_layout_margins [OF assms(2) assms(3) l]
  show "cjk_mv l < eng_mv l" "0 \<le> cjk_mv l" "0 \<le> eng_mv l" by simp_all
qed

theorem layout_english_above_chinese_witness:
  "create_ass_layout 1920 1080 (Some (fl (18 / 100)))
     = Inr \<lparr>cjk_fs = 56, lat_fs = 41, mlr = 115, cjk_mv = 194, eng_mv = 266\<rparr>
   \<and> cjk_mv (trunc_layout 1920 1080 (fl (18 / 100)))
       < eng_mv (trunc_layout 1920 1080 (fl (18 / 100)))"
proof -
  have v: "fl (18 / 100) = 3242591731706757 / 18014398509481984" by code_simp
  have t: "trunc_layout 1920 1080 (fl (18 / 100))
     = \<lparr>cjk_fs = 56, lat_fs = 41, mlr = 115, cjk_mv = 194, eng_mv = 266\<rparr>"
    by code_simp
  have h: "(0::int) < 1920" "(0::int) < 1080" "0 \<le> fl (18 / 100)" "fl (18 / 100) \<le> 1"
    unfolding v by simp_all
  from layout_english_above_chinese [OF h] t show ?thesis by simp
qed

lemma create_ass_layout_None:
  "create_ass_layout w h None = create_ass_layout w h (Some CHINESE_MARGIN_V_PCT)"
  by (simp add: create_ass_layout_def)

text \<open>
  C2, as stated, fails: the layout is not the rounding to the nearest integer. At height
  530 the product \<open>h * 0.052\<close> is 27.56; the source's \<open>int\<close> gives the font size 27,
  rounding gives 28, and the English margin differs with it.
\<close>

theorem layout_not_rounded_counterexample:
  "create_ass_layout 1920 530 None
     = Inr \<lparr>cjk_fs = 27, lat_fs = 20, mlr = 115, cjk_mv = 95, eng_mv = 129\<rparr>
   \<and> spec_layout 1920 530 CHINESE_MARGIN_V_PCT
     = \<lparr>cjk_fs = 28, lat_fs = 20, mlr = 115, cjk_mv = 95, eng_mv = 131\<rparr>"
proof -
  have v: "CHINESE_MARGIN_V_PCT = 3242591731706757 / 18014398509481984"
    unfolding CHINESE_MARGIN_V_PCT_def by code_simp
  have m: "\<bar>CHINESE_MARGIN_V_PCT\<bar> \<le> 1" unfolding v by simp
  have t: "trunc_layout 1920 530 CHINESE_MARGIN_V_PCT
     = \<lparr>cjk_fs = 27, lat_fs = 20, mlr = 115, cjk_mv = 95, eng_mv = 129\<rparr>"
    by code_simp
  have s: "spec_layout 1920 530 CHINESE_MARGIN_V_PCT
     = \<lparr>cjk_fs = 28, lat_fs = 20, mlr = 115, cjk_mv = 95, eng_mv = 131\<rparr>"
    by code_simp
  have "create_ass_layout 1920 530 None = Inr (trunc_layout 1920 530 CHINESE_MARGIN_V_PCT)"
    unfolding create_ass_layout_None by (rule create_ass_layout_total) (simp_all add: m)
  with t s show ?thesis by simp
qed

text \<open>
  C2, amended. For every width, height and margin fraction, every layout that
  \<open>create_ass\<close> computes is given by the formulas with truncation towards zero of the
  float product in place of rounding: \<open>cjk_fs = max (int (h * 0.052)) 26\<close>,
  \<open>lat_fs = max (int (h * 0.038)) 20\<close>, \<open>mlr = int (w * 0.06)\<close>,
  \<open>cjk_mv = int (h * mv)\<close> and \<open>eng_mv = cjk_mv + cjk_fs + int (h * 0.015)\<close>; a missing
  margin fraction stands for 0.18; and the layout is computed whenever the dimensions
  are at most \<open>2 ^ 1023\<close> in magnitude and the fraction at most 1.
\<close>

theorem layout_truncated:
  "(\<forall>l. create_ass_layout w h (Some mv) = Inr l \<longrightarrow> l = trunc_layout w h mv)
   \<and> (\<bar>w\<bar> \<le> 2 ^ 1023 \<and> \<bar>h\<bar> \<le> 2 ^ 1023 \<and> \<bar>mv\<bar> \<le> 1 \<longrightarrow>
        create_ass_layout w h (Some mv) = Inr (trunc_layout w h mv))
   \<and> create_ass_layout w h None = create_ass_layout w h (Some (fl (18 / 100)))"
proof (intro conjI allI impI)
  fix l assume "create_ass_layout w h (Some mv) = Inr l"
  then show "l = trunc_layout w h mv" by (rule create_ass_layout_Inr)
next
  assume "\<bar>w\<bar> \<le> 2 ^ 1023 \<and> \<bar>h\<bar> \<le> 2 ^ 1023 \<and> \<bar>mv\<bar> \<le> 1"
  then show "create_ass_layout w h (Some mv) = Inr (trunc_layout w h mv)"
    by (intro create_ass_layout_total) auto
next
  show "create_ass_layout w h None = create_ass_layout w h (Some (fl (18 / 100)))"
    unfolding create_ass_layout_None CHINESE_MARGIN_V_PCT_def ..
qed

theorem layout_truncated_witness:
  "create_ass_layout 1280 720 (Some (fl (29 / 100)))
     = Inr \<lparr>cjk_fs = 37, lat_fs = 27, mlr = 76, cjk_mv = 208, eng_mv = 255\<rparr>"
proof -
  have v: "fl (29 / 100) = 5224175567749775 / 18014398509481984" by code_simp
  have t: "trunc_layout 1280 720 (fl (29 / 100))
     = \<lparr>cjk_fs = 37, lat_fs = 27, mlr = 76, cjk_mv = 208, eng_mv = 255\<rparr>"
    by code_simp
  have h: "\<bar>1280 :: int\<bar> \<le> 2 ^ 1023 \<and> \<bar>720 :: int\<bar> \<le> 2 ^ 1023 \<and> \<bar>fl (29 / 100)\<bar> \<le> 1"
    unfolding v by simp
  have "create_ass_layout 1280 720 (Some (fl (29 / 100)))
        = Inr (trunc_layout 1280 720 (fl (29 / 100)))"
    using layout_truncated [of 1280 720 "fl (29 / 100)"] h by blast
  then show ?thesis unfolding t .
qed

section \<open>The timestamp round trip\<close>

text \<open>
  C1 fails on the code at 1.001 seconds. The float nearest to 1.001 is just below it, so
  \<open>(s % 1) * 1000\<close> is 0.9999999999998899 and \<open>int\<close> gives 0 milliseconds: the stamp is
  \<open>00:00:01,000\<close>, which the parser reads back as 1.0 seconds, one millisecond short.
\<close>

theorem srt_round_trip_1001_ms:
  "format_srt_time (fl (1001 / 1000)) = u ''00:00:01,000''
   \<and> map_option (\<lambda>(g1, g2). stamp_seconds g1)
        (time_match (format_srt_time (fl (1001 / 1000)) @ u '' --> ''
                     @ format_srt_time (fl (1001 / 1000)))) = Some 1
   \<and> fl (1001 / 1000) = 2254051613498933 / 2251799813685248"
proof -
  have e: "format_srt_time (fl (1001 / 1000)) = u ''00:00:01,000''"
    by code_simp
  have d: "map_option (\<lambda>(g1, g2). stamp_seconds g1)
        (time_match (u ''00:00:01,000'' @ u '' --> '' @ u ''00:00:01,000'')) = Some 1"
    by code_simp
  have v: "fl (1001 / 1000) = 2254051613498933 / 2251799813685248"
    by code_simp
  from e d v show ?thesis by (simp only: simp_thms)
qed

section \<open>Malformed blocks\<close>

lemma split_nl_nonempty: "split_nl s \<noteq> []"
  by (induction s) (auto split: list.splits)

lemma find_time_None:
  "(find_time li lines = None) = (\<not> list_ex is_time_line lines)"
proof (induction lines arbitrary: li)
  case Nil
  then show ?case by simp
next
  case (Cons a lines)
  show ?case
  proof (cases "time_match (strip a)")
    case None
    then have "\<not> is_time_line a" by (simp add: is_time_line_def)
    with None Cons show ?thesis by simp
  next
    case (Some x)
    then have "is_time_line a" by (simp add: is_time_line_def)
    with Some show ?thesis by simp
  qed
qed

lemma find_time_Some:
  "find_time li lines = Some (i, m) \<Longrightarrow> i = li + first_time_index lines"
proof (induction lines arbitrary: li)
  case Nil
  then show ?case by simp
next
  case (Cons a lines)
  show ?case
  proof (cases "time_match (strip a)")
    case None
    then have n: "\<not> is_time_line a" by (simp add: is_time_line_def)
    from Cons.prems None have "find_time (Suc li) lines = Some (i, m)" by simp
    from Cons.IH [OF this] n show ?thesis by (simp add: first_time_index_def)
  next
    case (Some x)
    then have "is_time_line a" by (simp add: is_time_line_def)
    with Cons.prems Some show ?thesis by (simp add: first_time_index_def)
  qed
qed

lemma block_text_single: "block_text 0 [l] = []"
  by (simp add: block_text_def strip_def)

lemma parse_block_kept: "(parse_block b \<noteq> None) = kept_block b"
proof (cases "find_time 0 (block_lines b)")
  case None
  then have "\<not> has_time_line b" by (simp add: find_time_None has_time_line_def)
  with None show ?thesis
    by (simp add: parse_block_def kept_block_def block_lines_def Let_def)
next
  case (Some r)
  obtain i g1 g2 where r: "r = (i, g1, g2)" by (cases r) auto
  from Some r have i: "i = first_time_index (block_lines b)"
    using find_time_Some [of 0 "block_lines b" i "(g1, g2)"] by simp
  from Some have h: "has_time_line b"
    using find_time_None [of 0 "block_lines b"] by (simp add: has_time_line_def)
  show ?thesis
  proof (cases "length (block_lines b) < 2")
    case True
    then obtain l where l: "block_lines b = [l]"
      using split_nl_nonempty [of "strip b"]
      by (cases "block_lines b"; cases "tl (block_lines b)") (auto simp: block_lines_def)
    from h l have "is_time_line l" by (simp add: has_time_line_def)
    then have "first_time_index [l] = 0" by (simp add: first_time_index_def)
    with l True show ?thesis
      by (simp add: parse_block_def kept_block_def stripped_text_def block_text_single
          block_lines_def [symmetric] Let_def)
  next
    case False
    with Some r i h show ?thesis
      by (simp add: parse_block_def kept_block_def stripped_text_def
          block_lines_def [symmetric] Let_def)
  qed
qed

lemma parse_block_text:
  assumes "kept_block b" shows "e_text (the (parse_block b)) = stripped_text b"
proof -
  from assms have "parse_block b \<noteq> None" using parse_block_kept [of b] by blast
  then obtain e where e: "parse_block b = Some e" by auto
  then obtain i g1 g2 where f: "find_time 0 (block_lines b) = Some (i, g1, g2)"
    and t: "e_text e = block_text i (block_lines b)"
    by (auto simp: parse_block_def block_lines_def [symmetric] Let_def
        split: if_splits option.splits)
  from find_time_Some [OF f] t e show ?thesis by (simp add: stripped_text_def)
qed

text \<open>
  C6. A block yields no entry exactly when it has no line that the timestamp pattern
  matches or its text is empty after the markup is stripped. So the parsed entries are
  those of the kept blocks, one each and in the order of the blocks: their number is the
  number of kept blocks, and their texts are the stripped texts of those blocks.
\<close>

theorem parse_srt_keeps_timed_blocks:
  "(parse_block b = None) = (\<not> kept_block b)
   \<and> parse_srt content
       = map (\<lambda>b. the (parse_block b)) (filter kept_block (srt_blocks content))
   \<and> length (parse_srt content) = length (filter kept_block (srt_blocks content))
   \<and> map e_text (parse_srt content)
       = map stripped_text (filter kept_block (srt_blocks content))"
proof -
  have k: "(\<lambda>b. parse_block b \<noteq> None) = kept_block"
    by (rule ext) (rule parse_block_kept)
  have a: "(parse_block b = None) = (\<not> kept_block b)"
    using parse_block_kept [of b] by blast
  have p: "parse_srt content
       = map (\<lambda>b. the (parse_block b)) (filter kept_block (srt_blocks content))"
    unfolding parse_srt_def List.map_filter_def k comp_def by (rule refl)
  have t: "map e_text (parse_srt content)
       = map stripped_text (filter kept_block (srt_blocks content))"
    unfolding p by (simp add: parse_block_text)
  from a p t show ?thesis by simp
qed

section \<open>The classifier threshold\<close>

lemma count_loop_eq:
  "count_loop (c, t) s = (c + length (filter is_cjk s), t + length s)"
  by (induction s arbitrary: c t) auto

lemma fl_fifth: "fl (2 / 10) = 3602879701896397 / 18014398509481984"
  by code_simp

lemma fl_above_fifth:
  "fl (7205759403792795 / 36028797018963968) = 7205759403792795 / 36028797018963968"
  by code_simp

lemma ratio_le_fifth:
  assumes "5 * c \<le> t" "0 < t"
  shows "\<not> fl (2 / 10) < fl (of_nat c / of_nat t)"
proof -
  have "(of_nat (5 * c) :: rat) \<le> of_nat t" using assms(1) by (simp only: of_nat_le_iff)
  then have "(of_nat c :: rat) / of_nat t \<le> 2 / 10" using assms(2)
    by (simp add: field_simps)
  then have "fl (of_nat c / of_nat t) \<le> fl (2 / 10)" by (rule fl_mono)
  then show ?thesis by simp
qed

lemma ratio_gt_fifth:
  assumes "t < 5 * c" "t \<le> 2 ^ 52" "0 < t"
  shows "fl (2 / 10) < fl (of_nat c / of_nat t)"
proof -
  have tr: "(0::rat) < of_nat t" using assms(3) by simp
  have "(of_nat (t + 1) :: rat) \<le> of_nat (5 * c)" using assms(1) by (simp only: of_nat_le_iff)
  then have a: "(of_nat t :: rat) + 1 \<le> 5 * of_nat c" by simp
  have "(of_nat t :: rat) \<le> of_nat (2 ^ 52)" using assms(2) by (simp only: of_nat_le_iff)
  then have b: "(of_nat t :: rat) \<le> 2 ^ 52" by simp
  have "7205759403792795 / 36028797018963968 * (of_nat t :: rat) \<le> of_nat c"
    using a b by simp
  then have "7205759403792795 / 36028797018963968 \<le> (of_nat c :: rat) / of_nat t"
    using tr by (simp add: pos_le_divide_eq)
  then have "fl (7205759403792795 / 36028797018963968) \<le> fl (of_nat c / of_nat t)"
    by (rule fl_mono)
  then show ?thesis unfolding fl_fifth fl_above_fifth by simp
qed


text \<open>
  C3. A line classifies as \<open>cjk\<close> only when the share of its code points in the CJK
  ranges strictly exceeds one fifth, and, for a line of at most \<open>2 ^ 52\<close> code points,
  whenever it does; so a line with exactly 20% classifies as \<open>latin\<close>, and so does the
  empty line.
\<close>

theorem detect_language_threshold:
  "(detect_language s = Cjk \<longrightarrow> length s < 5 * length (filter is_cjk s))
   \<and> (length s \<le> 2 ^ 52 \<longrightarrow> length s < 5 * length (filter is_cjk s) \<longrightarrow>
        detect_language s = Cjk)
   \<and> detect_language [] = Latin"
proof (intro conjI impI)
  assume c: "detect_language s = Cjk"
  show "length s < 5 * length (filter is_cjk s)"
  proof (rule ccontr)
    assume "\<not> length s < 5 * length (filter is_cjk s)"
    then have le: "5 * length (filter is_cjk s) \<le> length s" by simp
    show False
    proof (cases "length s = 0")
      case True
      with c show False by (simp add: detect_language_def count_loop_eq)
    next
      case False
      then have "0 < length s" by simp
      from ratio_le_fifth [OF le this] c False show False
        by (simp add: detect_language_def count_loop_eq)
    qed
  qed
next
  assume b: "length s \<le> 2 ^ 52" and g: "length s < 5 * length (filter is_cjk s)"
  from g have p: "0 < length s" by (cases s) auto
  from ratio_gt_fifth [OF g b p] p show "detect_language s = Cjk"
    by (simp add: detect_language_def count_loop_eq)
next
  show "detect_language [] = Latin" by (simp add: detect_language_def)
qed

theorem detect_language_threshold_witness:
  "detect_language [20013, 97, 98, 99, 100] = Latin
   \<and> detect_language [20013, 97, 98, 99] = Cjk"
proof -
  have a: "\<not> length [20013, 97, 98, 99, 100 :: nat]
            < 5 * length (filter is_cjk [20013, 97, 98, 99, 100])"
    by (simp add: is_cjk_def)
  have b: "length [20013, 97, 98, 99 :: nat] \<le> 2 ^ 52"
    "length [20013, 97, 98, 99 :: nat] < 5 * length (filter is_cjk [20013, 97, 98, 99])"
    by (simp_all add: is_cjk_def)
  from detect_language_threshold [of "[20013, 97, 98, 99, 100]"] a
  have "detect_language [20013, 97, 98, 99, 100] \<noteq> Cjk" by blast
  then have "detect_language [20013, 97, 98, 99, 100] = Latin"
    by (cases "detect_language [20013, 97, 98, 99, 100]") auto
  moreover from detect_language_threshold [of "[20013, 97, 98, 99]"] b
  have "detect_language [20013, 97, 98, 99] = Cjk" by blast
  ultimately show ?thesis by simp
qed

section \<open>Completeness of the generator\<close>

text \<open>
  C4. Whenever \<open>create_ass\<close> returns, its count is the number of parsed entries and the
  script is the header followed by the events of the entries in order; it returns
  whenever the layout is computed. Every entry has at least one event: with both
  buckets non-empty a Chinese event and then an English one, with one bucket non-empty
  one event in the style of that bucket, and with both empty one English event that
  carries the original text of the entry.
\<close>

theorem generate_ass_events:
  "(create_ass_layout w h mv = Inr l \<longrightarrow>
      generate_ass entries w h mv
        = Inr (header w h l @ concat (concat (map entry_events entries)), length entries))
   \<and> (generate_ass entries w h mv = Inr (txt, n) \<longrightarrow> n = length entries)
   \<and> (create_ass content w h mv = Inr (txt, n) \<longrightarrow> n = length (parse_srt content))
   \<and> 1 \<le> length (entry_events e)
   \<and> (fst (split_cjk_latin (e_text e)) \<noteq> [] \<and> snd (split_cjk_latin (e_text e)) \<noteq> [] \<longrightarrow>
        entry_events e
          = [dialogue (format_ass_time (e_start e)) (format_ass_time (e_end e)) ''Chinese''
               (replace_nl (fst (split_cjk_latin (e_text e)))),
             dialogue (format_ass_time (e_start e)) (format_ass_time (e_end e)) ''English''
               (replace_nl (snd (split_cjk_latin (e_text e))))])
   \<and> (fst (split_cjk_latin (e_text e)) \<noteq> [] \<and> snd (split_cjk_latin (e_text e)) = [] \<longrightarrow>
        entry_events e
          = [dialogue (format_ass_time (e_start e)) (format_ass_time (e_end e)) ''Chinese''
               (replace_nl (fst (split_cjk_latin (e_text e))))])
   \<and> (fst (split_cjk_latin (e_text e)) = [] \<and> snd (split_cjk_latin (e_text e)) \<noteq> [] \<longrightarrow>
        entry_events e
          = [dialogue (format_ass_time (e_start e)) (format_ass_time (e_end e)) ''English''
               (replace_nl (snd (split_cjk_latin (e_text e))))])
   \<and> (fst (split_cjk_latin (e_text e)) = [] \<and> snd (split_cjk_latin (e_text e)) = [] \<longrightarrow>
        entry_events e
          = [dialogue (format_ass_time (e_start e)) (format_ass_time (e_end e)) ''English''
               (replace_nl (e_text e))])"
proof -
  have g: "generate_ass es w h mv = Inr (t, k) \<Longrightarrow> k = length es" for es t k
    by (auto simp: generate_ass_def split: sum.splits)
  have "1 \<le> length (entry_events e)"
    by (simp add: entry_events_def Let_def)
  moreover have "create_ass_layout w h mv = Inr l \<longrightarrow>
      generate_ass entries w h mv
        = Inr (header w h l @ concat (concat (map entry_events entries)), length entries)"
    by (simp add: generate_ass_def)
  moreover have "generate_ass entries w h mv = Inr (txt, n) \<longrightarrow> n = length entries"
    using g by blast
  moreover have "create_ass content w h mv = Inr (txt, n) \<longrightarrow> n = length (parse_srt content)"
    unfolding create_ass_def using g by blast
  ultimately show ?thesis
    by (simp add: entry_events_def Let_def)
qed

theorem generate_ass_events_witness:
  "entry_events \<lparr>e_start = 1, e_end = 2, e_text = [20013, 25991, 10, 104, 105]\<rparr>
     = [dialogue (format_ass_time 1) (format_ass_time 2) ''Chinese'' [20013, 25991],
        dialogue (format_ass_time 1) (format_ass_time 2) ''English'' [104, 105]]
   \<and> entry_events \<lparr>e_start = 1, e_end = 2, e_text = [32, 32]\<rparr>
     = [dialogue (format_ass_time 1) (format_ass_time 2) ''English'' [32, 32]]
   \<and> generate_ass [\<lparr>e_start = 1, e_end = 2, e_text = [32, 32]\<rparr>] 1920 1080 (Some 0)
     = Inr (header 1920 1080 (trunc_layout 1920 1080 0)
            @ dialogue (format_ass_time 1) (format_ass_time 2) ''English'' [32, 32], 1)"
proof -
  let ?e1 = "\<lparr>e_start = 1, e_end = 2, e_text = [20013, 25991, 10, 104, 105]\<rparr>"
  let ?e2 = "\<lparr>e_start = 1, e_end = 2, e_text = [32, 32]\<rparr>"
  have s1: "split_cjk_latin [20013, 25991, 10, 104, 105] = ([20013, 25991], [104, 105])"
    by code_simp
  have s2: "split_cjk_latin [32, 32] = ([], [])"
    by code_simp
  have r: "replace_nl [20013, 25991] = [20013, 25991]" "replace_nl [104, 105] = [104, 105]"
    "replace_nl [32, 32] = [32, 32]"
    by (simp_all add: replace_nl_def)
  have l: "create_ass_layout 1920 1080 (Some 0) = Inr (trunc_layout 1920 1080 0)"
    by (rule create_ass_layout_total) simp_all
  have a: "entry_events ?e1
     = [dialogue (format_ass_time 1) (format_ass_time 2) ''Chinese'' [20013, 25991],
        dialogue (format_ass_time 1) (format_ass_time 2) ''English'' [104, 105]]"
    using generate_ass_events [of 0 0 None "trunc_layout 0 0 0" "[]" "[]" 0 "[]" ?e1]
    by (simp add: s1 r)
  have b: "entry_events ?e2
     = [dialogue (format_ass_time 1) (format_ass_time 2) ''English'' [32, 32]]"
    using generate_ass_events [of 0 0 None "trunc_layout 0 0 0" "[]" "[]" 0 "[]" ?e2]
    by (simp add: s2 r)
  have c: "generate_ass [?e2] 1920 1080 (Some 0)
     = Inr (header 1920 1080 (trunc_layout 1920 1080 0)
            @ dialogue (format_ass_time 1) (format_ass_time 2) ''English'' [32, 32], 1)"
    using generate_ass_events [of 1920 1080 "Some 0" "trunc_layout 1920 1080 0" "[?e2]" "[]" 0
        "[]" ?e2] l b
    by simp
  from a b c show ?thesis by (simp only: simp_thms)
qed

section \<open>Facts about the job\<close>

lemma io_bind_write [simp]:
  "io_bind (write_file p bs) f w = f () (w\<lparr>files := (files w)(p \<mapsto> bs)\<rparr>)"
  by (simp add: io_bind_def write_file_def)

lemma io_bind_return [simp]: "io_bind (io_return a) f w = f a w"
  by (simp add: io_bind_def io_return_def)

lemma getsize_present:
  "files w p = Some bs \<Longrightarrow> io_bind (getsize p) f w = f (length bs) w"
  by (simp add: getsize_def io_bind_def read_file_def io_return_def)

lemma parse_srt_file_present:
  "files w p = Some bs \<Longrightarrow> io_bind (parse_srt_file p) f w = f (parse_srt (decode_text bs)) w"
  by (simp add: parse_srt_file_def io_bind_def read_file_def io_return_def)

lemma video_subs_distinct:
  "path_join jd (u ''video'' @ a) \<noteq> path_join jd (u ''subs'' @ b)"
  by (simp add: path_join_def u_def)

lemma mkdtemp_calls: "mkdtemp ev w = Inr (jd, w1) \<Longrightarrow> calls w1 = calls w"
  by (auto simp: mkdtemp_def split: list.splits)

lemma calls_rmtree [simp]: "calls (rmtree d w) = calls w"
  by (simp add: rmtree_def)

lemma body_video_small:
  assumes "length vb < 1000"
  shows "\<exists>w2. episode_body ev vb vn sb sn ep mt mv jd w1
             = (Inr (failure (u ''Video file too small or corrupt'')), w2)
           \<and> calls w2 = calls w1"
  using assms
  by (simp add: episode_body_def Let_def getsize_present video_subs_distinct io_return_def)

lemma body_subs_small:
  assumes "1000 \<le> length vb" "length sb < 5"
  shows "\<exists>w2. episode_body ev vb vn sb sn ep mt mv jd w1
             = (Inr (failure (u ''Subtitle file too small or corrupt'')), w2)
           \<and> calls w2 = calls w1"
  using assms
  by (simp add: episode_body_def Let_def getsize_present video_subs_distinct io_return_def)

lemma body_no_entries:
  assumes "1000 \<le> length vb" "5 \<le> length sb" "parse_srt (decode_text sb) = []"
  shows "\<exists>w2. episode_body ev vb vn sb sn ep mt mv jd w1
             = (Inr (failure (u ''No subtitle entries found '' @ [8212]
                              @ u '' check SRT format'')), w2)
           \<and> calls w2 = calls w1"
  using assms
  by (simp add: episode_body_def Let_def getsize_present parse_srt_file_present
      video_subs_distinct io_return_def)

lemma process_episode_of_body:
  assumes "mkdtemp ev w = Inr (jd, w1)"
    and "episode_body ev vb vn sb sn ep mt mv jd w1 = (Inr res, w2)"
    and "calls w2 = calls w1"
  shows "\<exists>w'. process_episode ev vb vn sb sn ep mt mv w = Inr (res, w') \<and> calls w' = calls w"
  using assms by (simp add: process_episode_def mkdtemp_calls)

end
